theory Spec2Isabelle
  imports Complex_Main "HOL-Library.Sublist" "HOL-Library.Monad_Syntax"
begin

section \<open>Python values, exceptions and text\<close>

text \<open>
  A Python \<open>str\<close> is modelled as a \<open>string\<close> whose characters are read as the code
  points 0..255 (one \<open>char\<close> per code point), so the development covers every text over
  that alphabet. A computation that may raise is a value of type \<open>'a option\<close>, where
  \<open>None\<close> stands for a raised exception; every handler of the source is
  \<open>except Exception\<close>, which does not look at the exception, so its identity is not
  kept. Python integers are \<open>int\<close>.
\<close>

type_synonym 'a py = "'a option"

definition try_except :: "'a py \<Rightarrow> 'a \<Rightarrow> 'a" where
  \<comment> \<open>\<open>try: return m  except Exception: return d\<close>\<close>
  "try_except m d = (case m of None \<Rightarrow> d | Some v \<Rightarrow> v)"

definition or_empty :: "string option \<Rightarrow> string" where
  \<comment> \<open>\<open>x or ''\<close> for \<open>x\<close> a string or \<open>None\<close>\<close>
  "or_empty x = (case x of None \<Rightarrow> [] | Some s \<Rightarrow> s)"

definition py_last :: "'a list \<Rightarrow> 'a py" where
  \<comment> \<open>\<open>xs[-1]\<close>: IndexError on the empty list\<close>
  "py_last xs = (if xs = [] then None else Some (last xs))"

definition py_getitem :: "('k \<times> 'v) list \<Rightarrow> 'k \<Rightarrow> 'v py" where
  \<comment> \<open>\<open>d[k]\<close> on a dict given by its items: KeyError on a missing key\<close>
  "py_getitem d k = map_of d k"

definition py_truediv :: "int \<Rightarrow> int \<Rightarrow> real py" where
  \<comment> \<open>\<open>a / b\<close> on integers: ZeroDivisionError when \<open>b = 0\<close>. The quotient is exact here;
      see the remark at \<open>normalize_score\<close>.\<close>
  "py_truediv a b = (if b = 0 then None else Some (real_of_int a / real_of_int b))"

definition py_int :: "real \<Rightarrow> int" where
  \<comment> \<open>\<open>int(x)\<close> on a float: truncation towards zero\<close>
  "py_int x = (if 0 \<le> x then \<lfloor>x\<rfloor> else \<lceil>x\<rceil>)"

subsection \<open>Character classes of \<open>re\<close> and \<open>str.lower\<close>\<close>

definition is_space :: "char \<Rightarrow> bool" where
  \<comment> \<open>\<open>\s\<close> of a \<open>str\<close> pattern, on the code points below 256\<close>
  "is_space c = (of_char c \<in> {9, 10, 11, 12, 13, 28, 29, 30, 31, 32, 133, 160 :: nat})"

definition is_digit :: "char \<Rightarrow> bool" where
  \<comment> \<open>the class \<open>[0-9]\<close>\<close>
  "is_digit c = (48 \<le> (of_char c :: nat) \<and> (of_char c :: nat) \<le> 57)"

definition is_word :: "char \<Rightarrow> bool" where
  \<comment> \<open>\<open>\w\<close> of a \<open>str\<close> pattern: alphanumeric code points and the underscore\<close>
  "is_word c = (let n = (of_char c :: nat) in
      (48 \<le> n \<and> n \<le> 57) \<or> (65 \<le> n \<and> n \<le> 90) \<or> n = 95 \<or> (97 \<le> n \<and> n \<le> 122) \<or>
      n \<in> {170, 178, 179, 181, 185, 186, 188, 189, 190} \<or>
      (192 \<le> n \<and> n \<le> 214) \<or> (216 \<le> n \<and> n \<le> 246) \<or> (248 \<le> n \<and> n \<le> 255))"

definition lower_char :: "char \<Rightarrow> char" where
  "lower_char c = (let n = (of_char c :: nat) in
      if (65 \<le> n \<and> n \<le> 90) \<or> (192 \<le> n \<and> n \<le> 214) \<or> (216 \<le> n \<and> n \<le> 222)
      then char_of (n + 32) else c)"

definition lower :: "string \<Rightarrow> string" where
  \<comment> \<open>\<open>s.lower()\<close>\<close>
  "lower s = map lower_char s"

fun py_split :: "char \<Rightarrow> string \<Rightarrow> string list" where
  \<comment> \<open>\<open>s.split(sep)\<close> for a separator of one character\<close>
  "py_split sep [] = [[]]"
| "py_split sep (c # cs) =
     (if c = sep then [] # py_split sep cs
      else (case py_split sep cs of [] \<Rightarrow> [[c]] | p # ps \<Rightarrow> (c # p) # ps))"

section \<open>utils.py\<close>

subsection \<open>\<open>extract_urls\<close>\<close>

definition url_char :: "char \<Rightarrow> bool" where
  \<comment> \<open>the class \<open>[^\s'"]\<close>\<close>
  "url_char c = (\<not> is_space c \<and> c \<noteq> CHR 0x27 \<and> c \<noteq> CHR 0x22)"

definition lit_then_run :: "string \<Rightarrow> string \<Rightarrow> (string \<times> string) option" where
  \<comment> \<open>a literal followed by \<open>[^\s'"]+\<close>, matched at the start of \<open>s\<close>: the match and the
      rest of the text. The greedy \<open>+\<close> is the last item of its alternative, so it takes
      the longest run.\<close>
  "lit_then_run lit s =
     (if prefix lit s \<and> takeWhile url_char (drop (length lit) s) \<noteq> []
      then Some (lit @ takeWhile url_char (drop (length lit) s),
                 dropWhile url_char (drop (length lit) s))
      else None)"

definition match_url :: "string \<Rightarrow> (string \<times> string) option" where
  \<comment> \<open>\<open>(https?://[^\s'"]+|www\.[^\s'"]+)\<close> at the start of \<open>s\<close>: the optional \<open>s\<close> is
      tried first, then left out, then the second alternative\<close>
  "match_url s =
     (case lit_then_run ''https://'' s of Some m \<Rightarrow> Some m
      | None \<Rightarrow> (case lit_then_run ''http://'' s of Some m \<Rightarrow> Some m
                 | None \<Rightarrow> lit_then_run ''www.'' s))"

function extract_urls :: "string \<Rightarrow> string list" where
  \<comment> \<open>\<open>url_regex.findall(text or "")\<close>: scan from the left; after a match go on behind it,
      otherwise one character further\<close>
  "extract_urls [] = []"
| "extract_urls (c # cs) =
     (case match_url (c # cs) of
        Some (u, rest) \<Rightarrow> u # extract_urls rest
      | None \<Rightarrow> extract_urls cs)"
  by pat_completeness auto

termination extract_urls
proof (relation "measure length")
  show "wf (measure length)" by simp
next
  fix c cs x2 u rest
  assume m: "match_url (c # cs) = Some x2" and x: "(u, rest) = x2"
  from m x obtain lit where l: "lit_then_run lit (c # cs) = Some (u, rest)" and n: "lit \<noteq> []"
    by (auto simp: match_url_def split: option.splits)
  from l have p: "prefix lit (c # cs)"
    and r: "rest = dropWhile url_char (drop (length lit) (c # cs))"
    by (auto simp: lit_then_run_def split: if_splits)
  from p have "length lit \<le> length (c # cs)"
    by (rule prefix_length_le)
  moreover from n have "Suc 0 \<le> length lit"
    by (cases lit) auto
  moreover have "length rest \<le> length (c # cs) - length lit"
    unfolding r using length_dropWhile_le [of url_char "drop (length lit) (c # cs)"] by simp
  ultimately have "length rest < length (c # cs)" by arith
  then show "(rest, c # cs) \<in> measure length" by simp
next
  fix c cs
  show "(cs, c # cs) \<in> measure length" by simp
qed

subsection \<open>\<open>IP_REGEX\<close>\<close>

definition is_word_opt :: "char option \<Rightarrow> bool" where
  \<comment> \<open>outside the string there is no word character\<close>
  "is_word_opt c = (case c of None \<Rightarrow> False | Some x \<Rightarrow> is_word x)"

definition word_boundary :: "char option \<Rightarrow> char option \<Rightarrow> bool" where
  \<comment> \<open>\<open>\b\<close> between the character before and the character after the position\<close>
  "word_boundary left right = (is_word_opt left \<noteq> is_word_opt right)"

definition hd_opt :: "'a list \<Rightarrow> 'a option" where
  "hd_opt xs = (case xs of [] \<Rightarrow> None | x # _ \<Rightarrow> Some x)"

definition digits_1_3 :: "string \<Rightarrow> (string \<times> string) option" where
  \<comment> \<open>\<open>[0-9]{1,3}\<close> at the start of \<open>s\<close>, where the pattern goes on with \<open>\.\<close> or
      \<open>\b\<close>: neither matches in front of a further digit, so of the one to three digits
      the quantifier may take only the whole run of digits lets the match go on\<close>
  "digits_1_3 s =
     (let ds = takeWhile is_digit s in
      if 1 \<le> length ds \<and> length ds \<le> 3 then Some (ds, dropWhile is_digit s) else None)"

definition digits_dot :: "string \<Rightarrow> string option" where
  \<comment> \<open>\<open>[0-9]{1,3}\.\<close> at the start of \<open>s\<close>: the rest of the text\<close>
  "digits_dot s =
     (case digits_1_3 s of
        None \<Rightarrow> None
      | Some (ds, r) \<Rightarrow> (case r of [] \<Rightarrow> None | c # r' \<Rightarrow> if c = CHR ''.'' then Some r' else None))"

definition ip_match_at :: "char option \<Rightarrow> string \<Rightarrow> bool" where
  \<comment> \<open>\<open>\b(?:[0-9]{1,3}\.){3}[0-9]{1,3}\b\<close> at the start of \<open>s\<close>, with \<open>left\<close> the
      character in front of it\<close>
  "ip_match_at left s =
     (word_boundary left (hd_opt s) \<and>
      (case digits_dot s of None \<Rightarrow> False | Some r1 \<Rightarrow>
       (case digits_dot r1 of None \<Rightarrow> False | Some r2 \<Rightarrow>
        (case digits_dot r2 of None \<Rightarrow> False | Some r3 \<Rightarrow>
         (case digits_1_3 r3 of None \<Rightarrow> False
          | Some (ds, r4) \<Rightarrow> word_boundary (Some (last ds)) (hd_opt r4))))))"

fun ip_search_from :: "char option \<Rightarrow> string \<Rightarrow> bool" where
  "ip_search_from left [] = ip_match_at left []"
| "ip_search_from left (c # cs) = (ip_match_at left (c # cs) \<or> ip_search_from (Some c) cs)"

definition ip_regex_search :: "string \<Rightarrow> bool" where
  \<comment> \<open>\<open>bool(IP_REGEX.search(host))\<close>: a match at some position\<close>
  "ip_regex_search host = ip_search_from None host"

subsection \<open>The address pattern of the sender check\<close>

definition addr_char :: "char \<Rightarrow> bool" where
  \<comment> \<open>the class \<open>[\w\.-]\<close>\<close>
  "addr_char c = (is_word c \<or> c = CHR ''.'' \<or> c = CHR ''-'')"

definition match_addr :: "string \<Rightarrow> string option" where
  \<comment> \<open>\<open>[\w\.-]+@[\w\.-]+\<close> at the start of \<open>s\<close>: the matched text. The class excludes
      \<open>@\<close>, so the first \<open>+\<close> can only stop at the end of its run.\<close>
  "match_addr s =
     (let name = takeWhile addr_char s; r = dropWhile addr_char s in
      case r of
        [] \<Rightarrow> None
      | c # r' \<Rightarrow>
          if name \<noteq> [] \<and> c = CHR ''@'' \<and> takeWhile addr_char r' \<noteq> []
          then Some (name @ CHR ''@'' # takeWhile addr_char r') else None)"

fun search_addr :: "string \<Rightarrow> string option" where
  \<comment> \<open>\<open>re.search\<close>: the leftmost match\<close>
  "search_addr [] = None"
| "search_addr (c # cs) =
     (case match_addr (c # cs) of Some m \<Rightarrow> Some m | None \<Rightarrow> search_addr cs)"

subsection \<open>The libraries the code calls\<close>

text \<open>
  The standard library's \<open>email\<close> and \<open>urllib.parse\<close> and the package \<open>tldextract\<close>
  are not part of the repository. What the code asks of them is a parameter of the model,
  and every call may raise:
  \<^item> \<open>email_header raw name\<close> is \<open>email.message_from_string(raw, policy=default)[name]\<close>,
    \<open>Some None\<close> when the message has no such header;
  \<^item> \<open>email_walk raw\<close> is the list of parts that \<open>msg.walk()\<close> yields for that message,
    each with the results of its \<open>get_content_disposition()\<close> and \<open>get_filename('')\<close>;
  \<^item> \<open>url_hostname u\<close> is \<open>urlparse(u).hostname\<close>;
  \<^item> \<open>registered_domain h\<close> is \<open>tldextract.extract(h).registered_domain\<close>.
\<close>

record part =
  get_content_disposition :: "string option py"
  get_filename :: "string py"

record pylib =
  email_header :: "string \<Rightarrow> string \<Rightarrow> string option py"
  email_walk :: "string \<Rightarrow> part list py"
  url_hostname :: "string \<Rightarrow> string option py"
  registered_domain :: "string \<Rightarrow> string py"

subsection \<open>\<open>is_ip_url\<close>, \<open>domain_from_url\<close>\<close>

definition with_scheme :: "string \<Rightarrow> string" where
  \<comment> \<open>\<open>url if url.startswith('http') else 'http://' + url\<close>\<close>
  "with_scheme url = (if prefix ''http'' url then url else ''http://'' @ url)"

definition is_ip_url :: "pylib \<Rightarrow> string \<Rightarrow> bool" where
  "is_ip_url lib url =
     try_except (do {
       hostname \<leftarrow> url_hostname lib (with_scheme url);
       let host = or_empty hostname;
       Some (ip_regex_search host)
     }) False"

definition domain_from_url :: "pylib \<Rightarrow> string \<Rightarrow> string" where
  "domain_from_url lib url =
     try_except (do {
       hostname \<leftarrow> url_hostname lib (with_scheme url);
       let host = or_empty hostname;
       domain \<leftarrow> registered_domain lib host;
       Some (if domain \<noteq> [] then lower domain else lower host)
     }) []"

subsection \<open>\<open>extract_sender_from_headers\<close>, \<open>find_attachments\<close>\<close>

definition extract_sender_from_headers :: "pylib \<Rightarrow> string \<Rightarrow> string \<times> string" where
  "extract_sender_from_headers lib raw_email =
     try_except (do {
       f \<leftarrow> email_header lib raw_email ''From'';
       r \<leftarrow> email_header lib raw_email ''Reply-To'';
       Some (or_empty f, or_empty r)
     }) ([], [])"

definition SUSPICIOUS_EXT :: "string list" where
  \<comment> \<open>a set in the source; the loop over it visits every element once\<close>
  "SUSPICIOUS_EXT =
     [''.exe'', ''.scr'', ''.bat'', ''.cmd'', ''.vbs'', ''.js'', ''.jar'', ''.msi'', ''.ps1'']"

fun walk_parts :: "part list \<Rightarrow> string list py" where
  \<comment> \<open>the loop \<open>for part in msg.walk()\<close>, returning what it appends to \<open>exts\<close>\<close>
  "walk_parts [] = Some []"
| "walk_parts (p # ps) = do {
     disp \<leftarrow> get_content_disposition p;
     found \<leftarrow> (if disp = Some ''attachment'' then do {
                 fn \<leftarrow> get_filename p;
                 Some (concat (map (\<lambda>ext. if suffix ext (lower fn) then [fn] else [])
                               SUSPICIOUS_EXT))
               } else Some []);
     more \<leftarrow> walk_parts ps;
     Some (found @ more)
   }"

definition find_attachments :: "pylib \<Rightarrow> string \<Rightarrow> string list" where
  "find_attachments lib raw_email =
     try_except (do {
       parts \<leftarrow> email_walk lib raw_email;
       walk_parts parts
     }) []"

definition PHISHING_KEYWORDS :: "string list" where
  "PHISHING_KEYWORDS =
     [''urgent'', ''verify'', ''verify your account'', ''update your account'', ''password'',
      ''confirm'', ''click here'', ''account suspended'', ''limited time'', ''immediately'',
      ''login to'', ''reset your password'', ''bank'', ''paypal'', ''ssn'', ''social security'']"

section \<open>detector.py\<close>

definition weights :: "(string \<times> int) list" where
  \<comment> \<open>\<open>self.weights\<close>, the dict by its items\<close>
  "weights =
     [(''suspicious_url'', 30), (''ip_url'', 20), (''http_not_https'', 10),
      (''multiple_links'', 8), (''urgent_language'', 15), (''suspicious_attachment'', 25),
      (''sender_mismatch'', 25), (''bad_tld'', 12)]"

text \<open>
  An explanation is an f-string: its literal pieces and the values it interpolates. The
  list made of the set \<open>link_domains\<close> has no order the code fixes, so it is kept as
  the set.
\<close>

datatype fpart =
  Lit string | IStr string | IInt int | IStrList "string list" | IStrSet "string set"

type_synonym signal = "string \<times> int \<times> fpart list"

type_synonym acc = "signal list \<times> int"

definition emit :: "signal \<Rightarrow> acc \<Rightarrow> acc" where
  \<comment> \<open>\<open>breakdown.append((name, val, explanation)); total += val\<close>\<close>
  "emit sg st = (fst st @ [sg], snd st + fst (snd sg))"

definition indicator ::
  "bool \<Rightarrow> string \<Rightarrow> (int \<Rightarrow> int) \<Rightarrow> fpart list \<Rightarrow> acc \<Rightarrow> acc py" where
  \<comment> \<open>one \<open>if cond: val = ...self.weights[name]...; breakdown.append(...); total += val\<close>\<close>
  "indicator cond name scale explanation st =
     (if cond then do {
        w \<leftarrow> py_getitem weights name;
        Some (emit (name, scale w, explanation) st)
      } else Some st)"

fun scan_urls :: "pylib \<Rightarrow> string list \<Rightarrow> string list \<times> int \<Rightarrow> string list \<times> int" where
  \<comment> \<open>the loop \<open>for u in urls\<close> over \<open>(suspicious_urls, bad_tld_count)\<close>\<close>
  "scan_urls lib [] st = st"
| "scan_urls lib (u # us) st =
     (let dom = domain_from_url lib u;
          sus = (if dom \<noteq> [] \<and> (2 \<le> count_list dom CHR ''-'' \<or>
                                   3 < length (py_split CHR ''.'' dom))
                 then fst st @ [u] else fst st);
          cnt = (if dom \<noteq> [] \<and> list_ex (\<lambda>p. 10 < length p) (py_split CHR ''.'' dom)
                 then snd st + 1 else snd st)
      in scan_urls lib us (sus, cnt))"

definition suspicious_domain :: "string \<Rightarrow> bool" where
  \<comment> \<open>the test of the loop on a link's domain:
      \<open>dom and (dom.count('-') >= 2 or len(dom.split('.')) > 3)\<close>\<close>
  "suspicious_domain dm =
     (dm \<noteq> [] \<and> (2 \<le> count_list dm CHR ''-'' \<or> 3 < length (py_split CHR ''.'' dm)))"

definition long_label_domain :: "string \<Rightarrow> bool" where
  \<comment> \<open>the second test of the loop: \<open>dom and any(len(p) > 10 for p in dom.split('.'))\<close>\<close>
  "long_label_domain dm =
     (dm \<noteq> [] \<and> list_ex (\<lambda>p. 10 < length p) (py_split CHR ''.'' dm))"

definition sender_domain_of :: "string \<Rightarrow> string" where
  \<comment> \<open>the \<open>try\<close> block that reads the address out of the From header\<close>
  "sender_domain_of from_hdr =
     try_except
       (case search_addr from_hdr of
          None \<Rightarrow> Some []
        | Some m \<Rightarrow> do { d \<leftarrow> py_last (py_split CHR ''@'' m); Some (lower d) })
       []"

definition link_domains_of :: "pylib \<Rightarrow> string list \<Rightarrow> string set" where
  "link_domains_of lib urls =
     Set.filter (\<lambda>d. d \<noteq> [])
       (set (map (domain_from_url lib) (filter (\<lambda>u. domain_from_url lib u \<noteq> []) urls)))"

definition is_mismatch :: "string \<Rightarrow> string set \<Rightarrow> bool py" where
  \<comment> \<open>\<open>sender_domain.split('.')[-1]\<close> is read once here, before the link domains are
      tried; the source reads it again for each of them\<close>
  "is_mismatch sender_domain link_domains =
     (if sender_domain \<noteq> [] \<and> link_domains \<noteq> {} then do {
        top \<leftarrow> py_last (py_split CHR ''.'' sender_domain);
        Some (\<not> (\<exists>ld\<in>link_domains.
                    suffix ld sender_domain \<or> suffix sender_domain ld \<or> suffix top ld))
      } else Some False)"

definition normalize_score :: "int \<Rightarrow> int \<Rightarrow> int py" where
  \<comment> \<open>\<open>score = int((total / max_possible) * 100) if max_possible else 0\<close>, then
      \<open>max(0, min(100, score))\<close>. The float arithmetic is taken as exact: with the
      totals 0..145 over 145 the product is either an integer, which double arithmetic
      gives exactly, or at least 1/29 away from one, so truncation sees the same integer
      part.\<close>
  "normalize_score raw_total max_possible = do {
     score \<leftarrow> (if max_possible \<noteq> 0 then do {
                 q \<leftarrow> py_truediv raw_total max_possible;
                 Some (py_int (q * 100))
               } else Some 0);
     Some (max 0 (min 100 score))
   }"

record locals =
  l_from_hdr :: string
  l_reply_to :: string
  l_urls :: "string list"
  l_suspicious_urls :: "string list"
  l_bad_tld_count :: int
  l_hits :: "string list"
  l_atts :: "string list"
  l_sender_domain :: string
  l_link_domains :: "string set"
  l_mismatch :: bool
  l_breakdown :: "signal list"
  l_total :: int
  l_max_possible :: int
  l_score :: int

definition analyze_locals :: "pylib \<Rightarrow> string \<Rightarrow> locals py" where
  \<comment> \<open>the body of \<open>PhishDetector.analyze\<close> up to its \<open>return\<close>: the local variables\<close>
  "analyze_locals lib raw_email_text = do {
     let max_possible = sum_list (map snd weights);
     let hdrs = extract_sender_from_headers lib raw_email_text;
     let from_hdr = fst hdrs;
     let reply_to = snd hdrs;
     let body = raw_email_text;
     let urls = extract_urls body;
     let scanned = scan_urls lib urls ([], 0);
     let suspicious_urls = fst scanned;
     let bad_tld_count = snd scanned;
     st \<leftarrow> indicator (suspicious_urls \<noteq> []) ''suspicious_url'' (\<lambda>w. w)
            [Lit ''URLs with suspicious patterns: '', IStrList suspicious_urls] ([], 0);
     let ip_urls = filter (is_ip_url lib) urls;
     st \<leftarrow> indicator (ip_urls \<noteq> []) ''ip_url'' (\<lambda>w. w)
            [Lit ''URLs using raw IP addresses: '', IStrList ip_urls] st;
     let http_only = filter (prefix ''http://'') urls;
     st \<leftarrow> indicator (http_only \<noteq> []) ''http_not_https'' (\<lambda>w. w)
            [Lit ''Non-HTTPS links found: '', IStrList http_only] st;
     st \<leftarrow> indicator (3 \<le> length urls) ''multiple_links'' (\<lambda>w. w)
            [Lit ''Email contains '', IInt (int (length urls)), Lit '' links''] st;
     let body_lower = lower body;
     let hits = filter (\<lambda>kw. sublist kw body_lower) PHISHING_KEYWORDS;
     st \<leftarrow> indicator (hits \<noteq> []) ''urgent_language'' (\<lambda>w. min w (int (length hits) * 3))
            [Lit ''Phishing keywords found: '', IStrList hits] st;
     let atts = find_attachments lib raw_email_text;
     st \<leftarrow> indicator (atts \<noteq> []) ''suspicious_attachment'' (\<lambda>w. w)
            [Lit ''Suspicious attachments: '', IStrList atts] st;
     let sender_domain = sender_domain_of from_hdr;
     let link_domains = link_domains_of lib urls;
     mismatch \<leftarrow> is_mismatch sender_domain link_domains;
     st \<leftarrow> indicator mismatch ''sender_mismatch'' (\<lambda>w. w)
            [Lit (''Sender domain '' @ [CHR 0x27]), IStr sender_domain,
             Lit ([CHR 0x27] @ '' doesn'' @ [CHR 0x27] @ ''t match link domains ''),
             IStrSet link_domains] st;
     st \<leftarrow> indicator (bad_tld_count \<noteq> 0) ''bad_tld'' (\<lambda>w. min w (bad_tld_count * 4))
            [Lit ''Unusual domain parts count: '', IInt bad_tld_count] st;
     let breakdown = fst st;
     let raw_total = snd st;
     score \<leftarrow> normalize_score raw_total max_possible;
     Some \<lparr> l_from_hdr = from_hdr, l_reply_to = reply_to, l_urls = urls,
            l_suspicious_urls = suspicious_urls, l_bad_tld_count = bad_tld_count,
            l_hits = hits, l_atts = atts, l_sender_domain = sender_domain,
            l_link_domains = link_domains, l_mismatch = mismatch,
            l_breakdown = breakdown, l_total = raw_total, l_max_possible = max_possible,
            l_score = score \<rparr>
   }"

datatype pyval = PInt int | PStr string | PStrList "string list" | PSignals "signal list"

definition analyze :: "pylib \<Rightarrow> string \<Rightarrow> (string \<rightharpoonup> pyval) py" where
  \<comment> \<open>\<open>PhishDetector.analyze\<close>: the dict it returns\<close>
  "analyze lib raw_email_text = do {
     l \<leftarrow> analyze_locals lib raw_email_text;
     Some (map_of
       [(''score'', PInt (l_score l)),
        (''max_score'', PInt 100),
        (''raw_total'', PInt (l_total l)),
        (''max_possible_raw'', PInt (l_max_possible l)),
        (''breakdown'', PSignals (l_breakdown l)),
        (''sender'', PStr (l_from_hdr l)),
        (''reply_to'', PStr (l_reply_to l)),
        (''urls'', PStrList (l_urls l))])
   }"

section \<open>A concrete library for running the model\<close>

text \<open>
  To run the model on a concrete message the library parameters are instantiated with
  the behaviour of the libraries on plain input: the header section of a message is
  its lines up to the first empty one, a header is a line \<open>Name: value\<close> whose name is
  compared without regard to case, and the message is a single part that is not an
  attachment; a URL's host is the text between \<open>//\<close> and the next \<open>/\<close>, \<open>?\<close> or \<open>#\<close>,
  behind the last \<open>@\<close> and in front of the first \<open>:\<close>, in lower case (a bracketed host
  is not covered: the instance raises); the registered domain is the last two labels of
  a host under \<open>com\<close>, \<open>org\<close> or \<open>net\<close> and empty for any other host, as for an
  IP literal.
\<close>

definition plain_header :: "string \<Rightarrow> string \<Rightarrow> string option py" where
  \<comment> \<open>an instance of \<open>email_header\<close>: the value of the first header line of that name\<close>
  "plain_header raw name =
     (let hdr_lines = takeWhile (\<lambda>l. l \<noteq> []) (py_split (CHR 0x0A) raw);
          named = filter (\<lambda>l. CHR '':'' \<in> set l \<and>
                               lower (takeWhile (\<lambda>c. c \<noteq> CHR '':'') l) = lower name) hdr_lines
      in case named of
           [] \<Rightarrow> Some None
         | l # _ \<Rightarrow> Some (Some (dropWhile (\<lambda>c. c = CHR '' '')
                                    (drop 1 (dropWhile (\<lambda>c. c \<noteq> CHR '':'') l)))))"

definition plain_walk :: "string \<Rightarrow> part list py" where
  \<comment> \<open>an instance of \<open>email_walk\<close>: the message itself, with no disposition and no
      file name\<close>
  "plain_walk raw = Some [\<lparr> get_content_disposition = Some None, get_filename = Some [] \<rparr>]"

definition scheme_char :: "char \<Rightarrow> bool" where
  \<comment> \<open>the characters of a URL scheme: ASCII letters, digits, \<open>+\<close>, \<open>-\<close>, \<open>.\<close>\<close>
  "scheme_char c = (let n = (of_char c :: nat) in
      (48 \<le> n \<and> n \<le> 57) \<or> (65 \<le> n \<and> n \<le> 90) \<or> (97 \<le> n \<and> n \<le> 122) \<or>
      c = CHR ''+'' \<or> c = CHR ''-'' \<or> c = CHR ''.'')"

definition strip_scheme :: "string \<Rightarrow> string" where
  \<comment> \<open>the URL behind \<open>scheme:\<close>, where it starts with a scheme that begins with a
      letter\<close>
  "strip_scheme u =
     (let pre = takeWhile (\<lambda>c. c \<noteq> CHR '':'') u in
      if CHR '':'' \<in> set u \<and> pre \<noteq> [] \<and> \<not> is_digit (hd pre) \<and> list_all scheme_char pre \<and>
         hd pre \<notin> set ''+-.''
      then drop (length pre + 1) u else u)"

definition plain_hostname :: "string \<Rightarrow> string option py" where
  \<comment> \<open>an instance of \<open>url_hostname\<close>\<close>
  "plain_hostname u =
     (let rest = strip_scheme u;
          netloc = (if prefix ''//'' rest
                    then takeWhile (\<lambda>c. c \<notin> set ''/?#'') (drop 2 rest) else []);
          host = lower (takeWhile (\<lambda>c. c \<noteq> CHR '':'') (last (py_split CHR ''@'' netloc)))
      in if CHR ''['' \<in> set netloc \<or> CHR '']'' \<in> set netloc then None
         else if host = [] then Some None else Some (Some host))"

definition plain_registered_domain :: "string \<Rightarrow> string py" where
  \<comment> \<open>an instance of \<open>registered_domain\<close>\<close>
  "plain_registered_domain host =
     (let labels = py_split CHR ''.'' host; n = length labels in
      if 2 \<le> n \<and> last labels \<in> set [''com'', ''org'', ''net''] \<and> labels ! (n - 2) \<noteq> []
      then Some (labels ! (n - 2) @ ''.'' @ last labels) else Some [])"

definition plain_lib :: pylib where
  "plain_lib = \<lparr> email_header = plain_header, email_walk = plain_walk,
                 url_hostname = plain_hostname, registered_domain = plain_registered_domain \<rparr>"

definition example_mail :: string where
  \<comment> \<open>the message of the specification's worked example\<close>
  "example_mail =
     ''From: billing@paypal.com'' @ [CHR 0x0A] @ [CHR 0x0A] @
     ''Your account has been suspended, verify immediately.'' @ [CHR 0x0A] @
     ''http://192.168.1.5/login'' @ [CHR 0x0A] @
     ''http://paypal-secure-verify.com/reset'' @ [CHR 0x0A] @
     ''https://paypal.com/account'' @ [CHR 0x0A]"

definition three_links :: string where
  \<comment> \<open>three HTTPS links, no keyword, no header\<close>
  "three_links = ''https://a.com https://b.com https://c.com''"

definition verify_mail :: string where
  \<comment> \<open>a text in which a keyword lies inside a longer keyword\<close>
  "verify_mail = ''Please verify your account''"

definition raising_lib :: pylib where
  \<comment> \<open>libraries of which every call raises\<close>
  "raising_lib = \<lparr> email_header = (\<lambda>raw name. None), email_walk = (\<lambda>raw. None),
                   url_hostname = (\<lambda>u. None), registered_domain = (\<lambda>h. None) \<rparr>"


definition ip_like_url :: string where
  \<comment> \<open>a link whose host begins like an IP literal and goes on as a name\<close>
  "ip_like_url = ''http://1.2.3.4.evil.com/login''"

definition big_quad_url :: string where
  \<comment> \<open>a link whose host is a dotted quad with a group above 255\<close>
  "big_quad_url = ''http://999.1.1.1/x''"

definition dup_links :: string where
  \<comment> \<open>the same link twice\<close>
  "dup_links = ''www.a.com'' @ CHR '' '' # ''www.a.com''"

definition header_block :: string where
  \<comment> \<open>header lines with a sender, a keyword and three links\<close>
  "header_block =
     ''From: alerts@bank.org'' @ [CHR 0x0A] @
     ''Subject: urgent http://paypal-secure-verify.com/x http://1.2.3.4/y www.x.com''"

definition header_only_mail :: string where
  \<comment> \<open>the keyword and the links in the header lines, none in the body\<close>
  "header_only_mail = header_block @ CHR 0x0A # (CHR 0x0A # ''hello'')"

definition signals_of :: "(string \<rightharpoonup> pyval) py \<Rightarrow> signal list" where
  \<comment> \<open>\<open>result['breakdown']\<close> of what \<open>analyze\<close> returned\<close>
  "signals_of res =
     (case res of
        Some r \<Rightarrow> (case r ''breakdown'' of Some (PSignals bd) \<Rightarrow> bd | _ \<Rightarrow> [])
      | None \<Rightarrow> [])"

definition triggered :: "(string \<rightharpoonup> pyval) py \<Rightarrow> string set" where
  \<comment> \<open>the names of the signals in the breakdown\<close>
  "triggered res = fst ` set (signals_of res)"

definition int_field :: "string \<Rightarrow> (string \<rightharpoonup> pyval) py \<Rightarrow> int option" where
  \<comment> \<open>\<open>result[key]\<close> where it is an integer\<close>
  "int_field key res =
     (case res of
        Some r \<Rightarrow> (case r key of Some (PInt i) \<Rightarrow> Some i | _ \<Rightarrow> None)
      | None \<Rightarrow> None)"

definition strs_field :: "string \<Rightarrow> (string \<rightharpoonup> pyval) py \<Rightarrow> string list option" where
  \<comment> \<open>\<open>result[key]\<close> where it is a list of strings\<close>
  "strs_field key res =
     (case res of
        Some r \<Rightarrow> (case r key of Some (PStrList xs) \<Rightarrow> Some xs | _ \<Rightarrow> None)
      | None \<Rightarrow> None)"

definition str_field :: "string \<Rightarrow> (string \<rightharpoonup> pyval) py \<Rightarrow> string option" where
  \<comment> \<open>\<open>result[key]\<close> where it is a string\<close>
  "str_field key res =
     (case res of
        Some r \<Rightarrow> (case r key of Some (PStr x) \<Rightarrow> Some x | _ \<Rightarrow> None)
      | None \<Rightarrow> None)"

definition result_keys :: "string set" where
  \<comment> \<open>the keys of the dict literal that \<open>analyze\<close> returns\<close>
  "result_keys = {''score'', ''max_score'', ''raw_total'', ''max_possible_raw'',
                  ''breakdown'', ''sender'', ''reply_to'', ''urls''}"

section \<open>The specification's formulas\<close>

definition spec_score :: "int \<Rightarrow> int \<Rightarrow> int" where
  \<comment> \<open>the specification's \<open>clamp(round(raw_total / max_possible_raw * 100), 0, 100)\<close>, and
      0 when \<open>max_possible_raw\<close> is 0\<close>
  "spec_score raw_total max_possible_raw =
     (if max_possible_raw = 0 then 0
      else max 0 (min 100 (round (real_of_int raw_total / real_of_int max_possible_raw * 100))))"

definition digit_group :: "string \<Rightarrow> bool" where
  \<comment> \<open>a group of one to three digits\<close>
  "digit_group g = (1 \<le> length g \<and> length g \<le> 3 \<and> list_all is_digit g)"

definition spec_dotted_quad :: "string \<Rightarrow> bool" where
  \<comment> \<open>the specification's dotted-quad IPv4 literal: four groups of one to three digits
      separated by dots, with no bound on the numbers\<close>
  "spec_dotted_quad q =
     (let groups = py_split CHR ''.'' q in length groups = 4 \<and> list_all digit_group groups)"

section \<open>Running \<open>analyze\<close>\<close>

lemma py_split_nonempty: "py_split sep s \<noteq> []"
  by (induction s) (auto split: list.splits)

lemma weights_total: "sum_list (map snd weights) = 145"
  by (simp add: weights_def)

lemma indicator_Some:
  "py_getitem weights name = Some w \<Longrightarrow>
   indicator cond name scale e st =
     Some (fst st @ (if cond then [(name, scale w, e)] else []),
           snd st + (if cond then scale w else 0))"
  by (simp add: indicator_def emit_def)

lemma weight_of:
  "py_getitem weights ''suspicious_url'' = Some 30"
  "py_getitem weights ''ip_url'' = Some 20"
  "py_getitem weights ''http_not_https'' = Some 10"
  "py_getitem weights ''multiple_links'' = Some 8"
  "py_getitem weights ''urgent_language'' = Some 15"
  "py_getitem weights ''suspicious_attachment'' = Some 25"
  "py_getitem weights ''sender_mismatch'' = Some 25"
  "py_getitem weights ''bad_tld'' = Some 12"
  by (simp_all add: py_getitem_def weights_def)

lemmas indicator_run = weight_of [THEN indicator_Some]

lemma is_mismatch_Some:
  "is_mismatch sd lds =
     Some (sd \<noteq> [] \<and> lds \<noteq> {} \<and>
           \<not> (\<exists>ld\<in>lds. suffix ld sd \<or> suffix sd ld \<or>
                          suffix (last (py_split CHR ''.'' sd)) ld))"
  by (simp add: is_mismatch_def py_last_def py_split_nonempty)

lemma floor_scaled:
  "0 \<le> a \<Longrightarrow> 0 < b \<Longrightarrow> py_int (real_of_int a / real_of_int b * 100) = a * 100 div b"
proof -
  assume a: "0 \<le> a" and b: "0 < b"
  have "real_of_int a / real_of_int b * 100 = real_of_int (a * 100) / real_of_int b" by simp
  moreover have "0 \<le> real_of_int (a * 100) / real_of_int b" using a b by simp
  ultimately show ?thesis
    unfolding py_int_def by (simp only: floor_divide_of_int_eq if_True)
qed

lemma normalize_score_run:
  "normalize_score t 145 = Some (max 0 (min 100 (py_int (real_of_int t / 145 * 100))))"
  by (simp add: normalize_score_def py_truediv_def)

lemma scan_urls_eq:
  "scan_urls lib us st =
     (fst st @ filter (\<lambda>u. domain_from_url lib u \<noteq> [] \<and>
                 (2 \<le> count_list (domain_from_url lib u) CHR ''-'' \<or>
                  3 < length (py_split CHR ''.'' (domain_from_url lib u)))) us,
      snd st + int (length (filter (\<lambda>u. domain_from_url lib u \<noteq> [] \<and>
                 list_ex (\<lambda>p. 10 < length p) (py_split CHR ''.'' (domain_from_url lib u))) us)))"
  by (induction us arbitrary: st) (simp_all add: Let_def)

lemma bad_tld_count_nonneg: "0 \<le> snd (scan_urls lib us ([], 0))"
  by (simp add: scan_urls_eq)

text \<open>
  The run of \<open>analyze\<close> written out: no step raises, and every local variable is a
  function of the text and of what the libraries answer.
\<close>

lemma analyze_locals_run:
  fixes lib raw
  defines "urls \<equiv> extract_urls raw"
    and "hdrs \<equiv> extract_sender_from_headers lib raw"
    and "hits \<equiv> filter (\<lambda>kw. sublist kw (lower raw)) PHISHING_KEYWORDS"
    and "atts \<equiv> find_attachments lib raw"
  defines "sus \<equiv> fst (scan_urls lib urls ([], 0))"
    and "cnt \<equiv> snd (scan_urls lib urls ([], 0))"
    and "sd \<equiv> sender_domain_of (fst hdrs)"
    and "lds \<equiv> link_domains_of lib urls"
  defines "mm \<equiv> (sd \<noteq> [] \<and> lds \<noteq> {} \<and>
           \<not> (\<exists>ld\<in>lds. suffix ld sd \<or> suffix sd ld \<or>
                          suffix (last (py_split CHR ''.'' sd)) ld))"
  defines "tot \<equiv> (if sus \<noteq> [] then 30 else 0) +
             (if filter (is_ip_url lib) urls \<noteq> [] then 20 else 0) +
             (if filter (prefix ''http://'') urls \<noteq> [] then 10 else 0) +
             (if 3 \<le> length urls then 8 else 0) +
             (if hits \<noteq> [] then min 15 (int (length hits) * 3) else 0) +
             (if atts \<noteq> [] then 25 else 0) +
             (if mm then 25 else 0) +
             (if cnt \<noteq> 0 then min 12 (cnt * 4) else (0::int))"
  shows "analyze_locals lib raw = Some
     \<lparr> l_from_hdr = fst hdrs, l_reply_to = snd hdrs, l_urls = urls,
       l_suspicious_urls = sus, l_bad_tld_count = cnt, l_hits = hits, l_atts = atts,
       l_sender_domain = sd, l_link_domains = lds, l_mismatch = mm,
       l_breakdown =
         (if sus \<noteq> [] then [(''suspicious_url'', 30,
             [Lit ''URLs with suspicious patterns: '', IStrList sus])] else []) @
         (if filter (is_ip_url lib) urls \<noteq> [] then [(''ip_url'', 20,
             [Lit ''URLs using raw IP addresses: '', IStrList (filter (is_ip_url lib) urls)])]
          else []) @
         (if filter (prefix ''http://'') urls \<noteq> [] then [(''http_not_https'', 10,
             [Lit ''Non-HTTPS links found: '', IStrList (filter (prefix ''http://'') urls)])]
          else []) @
         (if 3 \<le> length urls then [(''multiple_links'', 8,
             [Lit ''Email contains '', IInt (int (length urls)), Lit '' links''])] else []) @
         (if hits \<noteq> [] then [(''urgent_language'', min 15 (int (length hits) * 3),
             [Lit ''Phishing keywords found: '', IStrList hits])] else []) @
         (if atts \<noteq> [] then [(''suspicious_attachment'', 25,
             [Lit ''Suspicious attachments: '', IStrList atts])] else []) @
         (if mm then [(''sender_mismatch'', 25,
             [Lit (''Sender domain '' @ [CHR 0x27]), IStr sd,
              Lit ([CHR 0x27] @ '' doesn'' @ [CHR 0x27] @ ''t match link domains ''),
              IStrSet lds])] else []) @
         (if cnt \<noteq> 0 then [(''bad_tld'', min 12 (cnt * 4),
             [Lit ''Unusual domain parts count: '', IInt cnt])] else []),
       l_total = tot, l_max_possible = 145,
       l_score = max 0 (min 100 (py_int (real_of_int tot / 145 * 100))) \<rparr>"
  unfolding analyze_locals_def Let_def weights_total indicator_run is_mismatch_Some
    normalize_score_run Option.bind.simps fst_conv snd_conv
  unfolding urls_def hdrs_def hits_def atts_def sus_def cnt_def sd_def lds_def mm_def tot_def
  by (simp split del: if_split cong: if_cong)

lemma analyze_locals_Some: "\<exists>l. analyze_locals lib raw = Some l"
  using analyze_locals_run [of lib raw] by blast

lemma analyze_run:
  "analyze lib raw = Some (map_of
       [(''score'', PInt (l_score (the (analyze_locals lib raw)))),
        (''max_score'', PInt 100),
        (''raw_total'', PInt (l_total (the (analyze_locals lib raw)))),
        (''max_possible_raw'', PInt (l_max_possible (the (analyze_locals lib raw)))),
        (''breakdown'', PSignals (l_breakdown (the (analyze_locals lib raw)))),
        (''sender'', PStr (l_from_hdr (the (analyze_locals lib raw)))),
        (''reply_to'', PStr (l_reply_to (the (analyze_locals lib raw)))),
        (''urls'', PStrList (l_urls (the (analyze_locals lib raw))))])"
  using analyze_locals_Some [of lib raw] by (auto simp: analyze_def)

lemma sum8_bounds:
  fixes a b c d e f g h :: int
  assumes "0 \<le> a \<and> a \<le> 30" "0 \<le> b \<and> b \<le> 20" "0 \<le> c \<and> c \<le> 10" "0 \<le> d \<and> d \<le> 8"
    "0 \<le> e \<and> e \<le> 15" "0 \<le> f \<and> f \<le> 25" "0 \<le> g \<and> g \<le> 25" "0 \<le> h \<and> h \<le> 12"
  shows "0 \<le> a + b + c + d + e + f + g + h \<and> a + b + c + d + e + f + g + h \<le> 145"
  using assms by arith

lemma total_bounds_the:
  "0 \<le> l_total (the (analyze_locals lib raw)) \<and> l_total (the (analyze_locals lib raw)) \<le> 145"
  unfolding analyze_locals_run option.sel locals.select_convs
  apply (rule sum8_bounds)
  using bad_tld_count_nonneg [of lib "extract_urls raw"]
         apply simp_all
  done

lemma score_the:
  "l_score (the (analyze_locals lib raw)) =
     max 0 (min 100 (py_int (real_of_int (l_total (the (analyze_locals lib raw))) / 145 * 100)))"
  unfolding analyze_locals_run option.sel locals.select_convs ..

lemma score_floor_the:
  "l_score (the (analyze_locals lib raw)) = l_total (the (analyze_locals lib raw)) * 100 div 145"
proof -
  let ?t = "l_total (the (analyze_locals lib raw))"
  have b: "0 \<le> ?t" "?t \<le> 145" using total_bounds_the [of lib raw] by blast+
  have "py_int (real_of_int ?t / 145 * 100) = ?t * 100 div 145"
    using floor_scaled [of ?t 145] b by simp
  then show ?thesis unfolding score_the using b by simp
qed

lemma max_possible_the: "l_max_possible (the (analyze_locals lib raw)) = 145"
  unfolding analyze_locals_run option.sel locals.select_convs ..

lemma urls_the: "l_urls (the (analyze_locals lib raw)) = extract_urls raw"
  unfolding analyze_locals_run option.sel locals.select_convs ..

lemma hits_the:
  "l_hits (the (analyze_locals lib raw)) =
     filter (\<lambda>kw. sublist kw (lower raw)) PHISHING_KEYWORDS"
  unfolding analyze_locals_run option.sel locals.select_convs ..

lemma headers_the:
  "l_from_hdr (the (analyze_locals lib raw)) = fst (extract_sender_from_headers lib raw)"
  "l_reply_to (the (analyze_locals lib raw)) = snd (extract_sender_from_headers lib raw)"
  unfolding analyze_locals_run option.sel locals.select_convs by (rule refl)+

lemma atts_the: "l_atts (the (analyze_locals lib raw)) = find_attachments lib raw"
  unfolding analyze_locals_run option.sel locals.select_convs ..

lemma breakdown_weights_the:
  "s \<in> set (l_breakdown (the (analyze_locals lib raw))) \<Longrightarrow>
   \<exists>w. py_getitem weights (fst s) = Some w \<and> 0 \<le> fst (snd s) \<and> fst (snd s) \<le> w"
  unfolding analyze_locals_run option.sel locals.select_convs set_append Un_iff
  apply (elim disjE)
  using bad_tld_count_nonneg [of lib "extract_urls raw"]
         apply (simp_all add: weight_of split: if_splits)
  done

lemma signals_of_analyze:
  "signals_of (analyze lib raw) = l_breakdown (the (analyze_locals lib raw))"
  unfolding analyze_run by (simp add: signals_of_def)

lemma int_field_analyze:
  "int_field ''score'' (analyze lib raw) = Some (l_score (the (analyze_locals lib raw)))"
  "int_field ''raw_total'' (analyze lib raw) = Some (l_total (the (analyze_locals lib raw)))"
  "int_field ''max_possible_raw'' (analyze lib raw) = Some 145"
  unfolding analyze_run by (simp_all add: int_field_def max_possible_the)

lemma strs_field_analyze: "strs_field ''urls'' (analyze lib raw) = Some (extract_urls raw)"
  unfolding analyze_run by (simp add: strs_field_def urls_the)

lemma str_field_analyze:
  "str_field ''sender'' (analyze lib raw) = Some (fst (extract_sender_from_headers lib raw))"
  "str_field ''reply_to'' (analyze lib raw) = Some (snd (extract_sender_from_headers lib raw))"
  unfolding analyze_run by (simp_all add: str_field_def headers_the)

lemma example_mail_run:
  "map_option (\<lambda>l. (map (\<lambda>s. (fst s, fst (snd s))) (l_breakdown l), l_total l, l_score l,
                     l_urls l, l_hits l, l_from_hdr l, l_sender_domain l,
                     l_mismatch l))
     (analyze_locals plain_lib example_mail) =
   Some ([(''suspicious_url'', 30), (''ip_url'', 20), (''http_not_https'', 10),
          (''multiple_links'', 8), (''urgent_language'', 9), (''bad_tld'', 4)],
         81, 55,
         [''http://192.168.1.5/login'', ''http://paypal-secure-verify.com/reset'',
          ''https://paypal.com/account''],
         [''verify'', ''immediately'', ''paypal''],
         ''billing@paypal.com'', ''paypal.com'',
         False)"
  by code_simp

lemma example_mail_breakdown:
  "map (\<lambda>s. (fst s, fst (snd s))) (l_breakdown (the (analyze_locals plain_lib example_mail))) =
     [(''suspicious_url'', 30), (''ip_url'', 20), (''http_not_https'', 10),
      (''multiple_links'', 8), (''urgent_language'', 9), (''bad_tld'', 4)]"
proof -
  obtain l where l: "analyze_locals plain_lib example_mail = Some l"
    using analyze_locals_Some by blast
  with example_mail_run show ?thesis by simp
qed

section \<open>Bounds of the result\<close>

text \<open>
  C6. For every text and whatever the libraries answer, \<open>analyze\<close> returns a result
  whose score lies between 0 and 100, whose \<open>raw_total\<close> is at most
  \<open>max_possible_raw\<close>, whose \<open>max_possible_raw\<close> is the constant 145, the sum of the
  eight rule weights, and in whose breakdown every signal's weight is at most the
  weight configured for its rule.
\<close>

theorem analyze_bounds:
  "\<exists>r sc t bd. analyze lib raw = Some r \<and>
     r ''score'' = Some (PInt sc) \<and> 0 \<le> sc \<and> sc \<le> 100 \<and>
     r ''raw_total'' = Some (PInt t) \<and> t \<le> 145 \<and>
     r ''max_possible_raw'' = Some (PInt 145) \<and> sum_list (map snd weights) = 145 \<and>
     r ''breakdown'' = Some (PSignals bd) \<and>
     (\<forall>s\<in>set bd. \<exists>w. py_getitem weights (fst s) = Some w \<and> fst (snd s) \<le> w)"
proof -
  let ?l = "the (analyze_locals lib raw)"
  have sc: "0 \<le> l_score ?l \<and> l_score ?l \<le> 100"
    unfolding score_the by simp
  have bd: "\<forall>s\<in>set (l_breakdown ?l). \<exists>w. py_getitem weights (fst s) = Some w \<and> fst (snd s) \<le> w"
    using breakdown_weights_the [of _ lib raw] by blast
  show ?thesis
    unfolding analyze_run
    using sc total_bounds_the [of lib raw] bd
    by (simp add: max_possible_the weights_total)
qed

theorem analyze_bounds_witness:
  "\<exists>r bd. analyze plain_lib example_mail = Some r \<and>
     r ''breakdown'' = Some (PSignals bd) \<and> bd \<noteq> [] \<and>
     (\<forall>s\<in>set bd. \<exists>w. py_getitem weights (fst s) = Some w \<and> fst (snd s) \<le> w)"
proof -
  from analyze_bounds [of plain_lib example_mail]
  obtain r bd where r: "analyze plain_lib example_mail = Some r"
    and b: "r ''breakdown'' = Some (PSignals bd)"
    and w: "\<forall>s\<in>set bd. \<exists>w. py_getitem weights (fst s) = Some w \<and> fst (snd s) \<le> w"
    by blast
  from r b have "bd = l_breakdown (the (analyze_locals plain_lib example_mail))"
    unfolding analyze_run by auto
  with example_mail_breakdown have "bd \<noteq> []" by auto
  with r b w show ?thesis by blast
qed

section \<open>Score normalisation\<close>

text \<open>
  The score is the truncated quotient: for every text it is \<open>raw_total * 100 div 145\<close>
  (lemma \<open>score_floor_the\<close>), which already lies between 0 and 100.
\<close>

lemma three_links_total: "l_total (the (analyze_locals plain_lib three_links)) = 8"
  by code_simp

lemma spec_score_8: "spec_score 8 145 = 6"
  by (simp add: spec_score_def round_def)

text \<open>
  C1. The specification rounds the normalised ratio to the nearest integer before
  clamping; the code comments the step as rounding but truncates with \<open>int\<close>. On a text
  with three HTTPS links and nothing else only \<open>multiple_links\<close> fires: the raw total
  is 8 of 145, the code returns the score 5, and the specification's formula gives 6.
\<close>

theorem score_truncated_at_three_links:
  "\<exists>r. analyze plain_lib three_links = Some r \<and>
     r ''raw_total'' = Some (PInt 8) \<and> r ''max_possible_raw'' = Some (PInt 145) \<and>
     r ''score'' = Some (PInt 5) \<and> spec_score 8 145 = 6"
  unfolding analyze_run
  by (simp add: score_floor_the max_possible_the three_links_total spec_score_8)

section \<open>The keys of the result\<close>

lemma analyze_keys: "\<exists>r. analyze lib raw = Some r \<and> dom r = result_keys"
  unfolding analyze_run result_keys_def by (auto simp: dom_map_of_conv_image_fst)

lemma verify_mail_hits:
  "filter (\<lambda>kw. sublist kw (lower verify_mail)) PHISHING_KEYWORDS =
     [''verify'', ''verify your account'']"
  by code_simp

lemma keyword_hits_no_key: "''keyword_hits'' \<notin> result_keys"
  by (simp add: result_keys_def)

text \<open>
  C2. The specification lists a field \<open>keyword_hits\<close> in the result, and the dashboard
  reads it; \<open>analyze\<close> computes the matched keywords in its local \<open>hits\<close> but returns
  a dict without that key. On the text \<open>Please verify your account\<close> the local list is
  \<open>verify\<close>, \<open>verify your account\<close>, and the result has no \<open>keyword_hits\<close>.
\<close>

theorem keyword_hits_not_returned:
  "\<exists>r l. analyze plain_lib verify_mail = Some r \<and>
     analyze_locals plain_lib verify_mail = Some l \<and>
     l_hits l = [''verify'', ''verify your account''] \<and>
     r ''keyword_hits'' = None \<and> dom r = result_keys"
proof -
  obtain l where l: "analyze_locals plain_lib verify_mail = Some l"
    using analyze_locals_Some by blast
  then have h: "l_hits l = [''verify'', ''verify your account'']"
    using hits_the [of plain_lib verify_mail] verify_mail_hits by simp
  obtain r where r: "analyze plain_lib verify_mail = Some r" and d: "dom r = result_keys"
    using analyze_keys by blast
  from d keyword_hits_no_key have "r ''keyword_hits'' = None" by blast
  with l h r d show ?thesis by blast
qed

section \<open>The worked example\<close>

text \<open>
  The message of the specification's example: the From header \<open>billing@paypal.com\<close>,
  the sentence \<open>Your account has been suspended, verify immediately.\<close> and the three
  links. The library instance answers \<open>billing@paypal.com\<close> for its From header, no
  attachment, and the domains \<open>192.168.1.5\<close>, \<open>paypal-secure-verify.com\<close> and
  \<open>paypal.com\<close> for the links.
\<close>

lemma example_mail_names:
  "map fst (signals_of (analyze plain_lib example_mail)) =
     [''suspicious_url'', ''ip_url'', ''http_not_https'', ''multiple_links'',
      ''urgent_language'', ''bad_tld'']"
proof -
  have "map fst (signals_of (analyze plain_lib example_mail)) =
        map fst (map (\<lambda>s. (fst s, fst (snd s))) (signals_of (analyze plain_lib example_mail)))"
    by (simp add: comp_def)
  then show ?thesis
    unfolding signals_of_analyze example_mail_breakdown by simp
qed

lemma example_mail_fields:
  "l_total (the (analyze_locals plain_lib example_mail)) = 81"
  "l_score (the (analyze_locals plain_lib example_mail)) = 55"
proof -
  obtain l where l: "analyze_locals plain_lib example_mail = Some l"
    using analyze_locals_Some by blast
  with example_mail_run show "l_total (the (analyze_locals plain_lib example_mail)) = 81"
    "l_score (the (analyze_locals plain_lib example_mail)) = 55" by simp_all
qed

text \<open>
  C3, as stated, fails: the set of triggered signals of the example is not the five
  signals \<open>ip_url\<close>, \<open>http_not_https\<close>, \<open>multiple_links\<close>, \<open>suspicious_url\<close>,
  \<open>urgent_language\<close>, because \<open>bad_tld\<close> fires as well: the label
  \<open>paypal-secure-verify\<close> is longer than ten characters.
\<close>

theorem example_mail_five_signals_counterexample:
  "triggered (analyze plain_lib example_mail) \<noteq>
     {''ip_url'', ''http_not_https'', ''multiple_links'', ''suspicious_url'', ''urgent_language''}"
proof -
  have "''bad_tld'' \<in> triggered (analyze plain_lib example_mail)"
    unfolding triggered_def image_set example_mail_names by simp
  moreover have "''bad_tld'' \<notin>
     {''ip_url'', ''http_not_https'', ''multiple_links'', ''suspicious_url'', ''urgent_language''}"
    by simp
  ultimately show ?thesis by metis
qed

text \<open>
  C3, amended. On the example the breakdown is \<open>suspicious_url\<close> (30), \<open>ip_url\<close> (20),
  \<open>http_not_https\<close> (10), \<open>multiple_links\<close> (8), \<open>urgent_language\<close> (9, for the
  keywords \<open>verify\<close>, \<open>immediately\<close>, \<open>paypal\<close>) and \<open>bad_tld\<close> (4);
  \<open>sender_mismatch\<close> does not fire; the raw total is 81 of 145 and the score is 55,
  below 100.
\<close>

theorem example_mail_signals:
  "map (\<lambda>s. (fst s, fst (snd s))) (signals_of (analyze plain_lib example_mail)) =
     [(''suspicious_url'', 30), (''ip_url'', 20), (''http_not_https'', 10),
      (''multiple_links'', 8), (''urgent_language'', 9), (''bad_tld'', 4)] \<and>
   ''sender_mismatch'' \<notin> triggered (analyze plain_lib example_mail) \<and>
   int_field ''raw_total'' (analyze plain_lib example_mail) = Some 81 \<and>
   int_field ''max_possible_raw'' (analyze plain_lib example_mail) = Some 145 \<and>
   int_field ''score'' (analyze plain_lib example_mail) = Some 55"
proof -
  have "''sender_mismatch'' \<notin> triggered (analyze plain_lib example_mail)"
    unfolding triggered_def image_set example_mail_names by simp
  then show ?thesis
    by (simp add: signals_of_analyze example_mail_breakdown int_field_analyze example_mail_fields)
qed

section \<open>The keyword rule\<close>

lemma keywords_distinct: "distinct PHISHING_KEYWORDS"
  by (simp add: PHISHING_KEYWORDS_def)

lemma urgent_signal_iff:
  "s \<in> set (l_breakdown (the (analyze_locals lib raw))) \<and> fst s = ''urgent_language'' \<longleftrightarrow>
   l_hits (the (analyze_locals lib raw)) \<noteq> [] \<and>
   s = (''urgent_language'', min 15 (int (length (l_hits (the (analyze_locals lib raw)))) * 3),
        [Lit ''Phishing keywords found: '', IStrList (l_hits (the (analyze_locals lib raw)))])"
  unfolding analyze_locals_run option.sel locals.select_convs set_append Un_iff
  by (auto split: if_splits)

lemma hits_card:
  "int (length (filter (\<lambda>kw. sublist kw (lower raw)) PHISHING_KEYWORDS)) =
   int (card {kw \<in> set PHISHING_KEYWORDS. sublist kw (lower raw)})"
proof -
  have "distinct (filter (\<lambda>kw. sublist kw (lower raw)) PHISHING_KEYWORDS)"
    using keywords_distinct by simp
  then have "card (set (filter (\<lambda>kw. sublist kw (lower raw)) PHISHING_KEYWORDS)) =
             length (filter (\<lambda>kw. sublist kw (lower raw)) PHISHING_KEYWORDS)"
    by (rule distinct_card)
  then show ?thesis by simp
qed

text \<open>
  C9. For every text and whatever the libraries answer, \<open>urgent_language\<close> is in the
  breakdown exactly when some keyword of the fixed list is a substring of the
  lower-cased text, and its weight is the minimum of 15 and three times the number of
  keywords of the list that are substrings. Each keyword counts on its own: a phrase
  and a word inside it are two hits.
\<close>

theorem urgent_language_rule:
  "(''urgent_language'' \<in> triggered (analyze lib raw) \<longleftrightarrow>
      (\<exists>kw\<in>set PHISHING_KEYWORDS. sublist kw (lower raw))) \<and>
   (\<forall>s\<in>set (signals_of (analyze lib raw)). fst s = ''urgent_language'' \<longrightarrow>
      fst (snd s) = min 15 (3 * int (card {kw \<in> set PHISHING_KEYWORDS. sublist kw (lower raw)})))"
proof -
  let ?hits = "filter (\<lambda>kw. sublist kw (lower raw)) PHISHING_KEYWORDS"
  have h: "l_hits (the (analyze_locals lib raw)) = ?hits" by (rule hits_the)
  have ne: "?hits \<noteq> [] \<longleftrightarrow> (\<exists>kw\<in>set PHISHING_KEYWORDS. sublist kw (lower raw))"
    by (simp add: filter_empty_conv)
  have a: "''urgent_language'' \<in> triggered (analyze lib raw) \<longleftrightarrow> ?hits \<noteq> []"
  proof
    assume "''urgent_language'' \<in> triggered (analyze lib raw)"
    then obtain s where "s \<in> set (l_breakdown (the (analyze_locals lib raw)))"
      "fst s = ''urgent_language''"
      unfolding triggered_def signals_of_analyze by force
    then show "?hits \<noteq> []" using urgent_signal_iff [of s lib raw] h by simp
  next
    assume n: "?hits \<noteq> []"
    let ?s = "(''urgent_language'', min 15 (int (length ?hits) * 3),
               [Lit ''Phishing keywords found: '', IStrList ?hits])"
    have "?s \<in> set (l_breakdown (the (analyze_locals lib raw))) \<and> fst ?s = ''urgent_language''"
      unfolding urgent_signal_iff h using n by simp
    then have "fst ?s \<in> fst ` set (signals_of (analyze lib raw))"
      unfolding signals_of_analyze by (intro imageI) simp
    then show "''urgent_language'' \<in> triggered (analyze lib raw)"
      unfolding triggered_def by simp
  qed
  have b: "\<forall>s\<in>set (signals_of (analyze lib raw)). fst s = ''urgent_language'' \<longrightarrow>
      fst (snd s) = min 15 (3 * int (card {kw \<in> set PHISHING_KEYWORDS. sublist kw (lower raw)}))"
  proof (intro ballI impI)
    fix s assume "s \<in> set (signals_of (analyze lib raw))" "fst s = ''urgent_language''"
    then have "s = (''urgent_language'', min 15 (int (length ?hits) * 3),
               [Lit ''Phishing keywords found: '', IStrList ?hits])"
      using urgent_signal_iff [of s lib raw] h unfolding signals_of_analyze by simp
    then have "fst (snd s) = min 15 (int (length ?hits) * 3)" by simp
    then show "fst (snd s) = min 15 (3 * int (card {kw \<in> set PHISHING_KEYWORDS. sublist kw (lower raw)}))"
      unfolding hits_card by (simp add: mult.commute)
  qed
  from a ne b show ?thesis by blast
qed

text \<open>
  On \<open>Please verify your account\<close> both \<open>verify\<close> and \<open>verify your account\<close>
  count, and the weight is 6.
\<close>

theorem urgent_language_rule_witness:
  "''urgent_language'' \<in> triggered (analyze plain_lib verify_mail) \<and>
   (\<exists>s\<in>set (signals_of (analyze plain_lib verify_mail)).
      fst s = ''urgent_language'' \<and> fst (snd s) = 6)"
proof -
  let ?hits = "filter (\<lambda>kw. sublist kw (lower verify_mail)) PHISHING_KEYWORDS"
  note rule = urgent_language_rule [of plain_lib verify_mail]
  have "''verify'' \<in> set ?hits"
    unfolding verify_mail_hits by simp
  then have k: "''verify'' \<in> set PHISHING_KEYWORDS \<and> sublist ''verify'' (lower verify_mail)"
    by simp
  then have t: "''urgent_language'' \<in> triggered (analyze plain_lib verify_mail)"
    using rule by blast
  then obtain s where s: "s \<in> set (signals_of (analyze plain_lib verify_mail))"
    "fst s = ''urgent_language''"
    unfolding triggered_def by force
  have "int (card {kw \<in> set PHISHING_KEYWORDS. sublist kw (lower verify_mail)}) = 2"
    unfolding hits_card [symmetric] verify_mail_hits by simp
  with s rule have "fst (snd s) = 6" by simp
  with t s show ?thesis by blast
qed

section \<open>The extracted links\<close>

lemma lit_then_run_parts:
  assumes "lit_then_run lit s = Some (u, rest)"
  shows "s = u @ rest"
proof -
  from assms have p: "prefix lit s"
    and u: "u = lit @ takeWhile url_char (drop (length lit) s)"
    and r: "rest = dropWhile url_char (drop (length lit) s)"
    by (auto simp: lit_then_run_def split: if_splits)
  from p have "s = lit @ drop (length lit) s"
    by (metis append_eq_conv_conj prefix_def)
  then show ?thesis unfolding u r by simp
qed

lemma match_url_parts: "match_url s = Some (u, rest) \<Longrightarrow> s = u @ rest"
  by (auto simp: match_url_def split: option.splits dest: lit_then_run_parts)

lemma extract_urls_weave:
  "\<exists>gaps tail. length gaps = length (extract_urls s) \<and>
      s = concat (map (\<lambda>(g, u). g @ u) (zip gaps (extract_urls s))) @ tail"
proof (induction s rule: extract_urls.induct)
  case 1
  show ?case by simp
next
  case (2 c cs)
  show ?case
  proof (cases "match_url (c # cs)")
    case None
    from "2.IH"(1) [OF None]
    obtain gaps tail where g: "length gaps = length (extract_urls cs)"
      and e: "cs = concat (map (\<lambda>(g, u). g @ u) (zip gaps (extract_urls cs))) @ tail"
      by blast
    show ?thesis
    proof (cases gaps)
      case Nil
      with g e have "extract_urls cs = []" "cs = tail" by auto
      with None have "length ([]::string list) = length (extract_urls (c # cs)) \<and>
        c # cs = concat (map (\<lambda>(g, u). g @ u) (zip [] (extract_urls (c # cs)))) @ (c # tail)"
        by simp
      then show ?thesis by blast
    next
      case (Cons g0 gs)
      with g obtain u0 us where us: "extract_urls cs = u0 # us"
        by (cases "extract_urls cs") auto
      with Cons g e None have "length ((c # g0) # gs) = length (extract_urls (c # cs)) \<and>
        c # cs = concat (map (\<lambda>(g, u). g @ u) (zip ((c # g0) # gs) (extract_urls (c # cs)))) @ tail"
        by simp
      then show ?thesis by blast
    qed
  next
    case (Some m)
    obtain u rest where m: "m = (u, rest)" by (cases m)
    from "2.IH"(2) [OF Some m [symmetric]]
    obtain gaps tail where g: "length gaps = length (extract_urls rest)"
      and e: "rest = concat (map (\<lambda>(g, u). g @ u) (zip gaps (extract_urls rest))) @ tail"
      by blast
    from Some m have s: "c # cs = u @ rest" by (auto dest: match_url_parts)
    from Some m have x: "extract_urls (c # cs) = u # extract_urls rest" by simp
    have "length ([] # gaps) = length (extract_urls (c # cs)) \<and>
        c # cs = concat (map (\<lambda>(g, u). g @ u) (zip ([] # gaps) (extract_urls (c # cs)))) @ tail"
      unfolding x using g e s by simp
    then show ?thesis by blast
  qed
qed

lemma extract_urls_sublist: "u \<in> set (extract_urls s) \<Longrightarrow> sublist u s"
proof (induction s rule: extract_urls.induct)
  case 1
  then show ?case by simp
next
  case (2 c cs)
  show ?case
  proof (cases "match_url (c # cs)")
    case None
    with "2.IH"(1) "2.prems" have "sublist u cs" by simp
    then show ?thesis by (simp add: sublist_Cons_right)
  next
    case (Some m)
    obtain v rest where m: "m = (v, rest)" by (cases m)
    from Some m have s: "c # cs = v @ rest" by (auto dest: match_url_parts)
    from Some m "2.prems" have "u = v \<or> u \<in> set (extract_urls rest)" by simp
    then show ?thesis
    proof
      assume "u = v"
      then show ?thesis unfolding s by simp
    next
      assume "u \<in> set (extract_urls rest)"
      with "2.IH"(2) [OF Some m [symmetric]] have "sublist u rest" by simp
      then obtain ps ss where "rest = ps @ u @ ss" unfolding sublist_def by blast
      then have "v @ rest = (v @ ps) @ u @ ss" by simp
      then show ?thesis unfolding s sublist_def by blast
    qed
  qed
qed


lemma takeWhile_stop: "\<not> P c \<Longrightarrow> takeWhile P (xs @ c # b) = takeWhile P xs"
  by (induction xs) auto

lemma dropWhile_stop: "\<not> P c \<Longrightarrow> dropWhile P (xs @ c # b) = dropWhile P xs @ c # b"
  by (induction xs) auto

lemma prefix_stop:
  assumes "\<not> P c" and "list_all P lit"
  shows "prefix lit (a @ c # b) \<longleftrightarrow> prefix lit a"
proof
  assume "prefix lit (a @ c # b)"
  then consider "prefix lit a" | us where "lit = a @ us" "prefix us (c # b)" "us \<noteq> []"
    unfolding prefix_append by (cases "prefix lit a") auto
  then show "prefix lit a"
  proof cases
    case 1
    then show ?thesis .
  next
    case 2
    then obtain us' where "us = c # us'" by (cases us) (auto simp: prefix_Cons)
    with 2 have "c \<in> set lit" by simp
    with assms show ?thesis by (simp add: list_all_iff)
  qed
next
  assume "prefix lit a"
  then show "prefix lit (a @ c # b)" by (rule prefix_prefix)
qed

lemma lit_then_run_stop:
  assumes c: "\<not> url_char c" and l: "list_all url_char lit"
  shows "lit_then_run lit (a @ c # b) =
         map_option (\<lambda>(u, r). (u, r @ c # b)) (lit_then_run lit a)"
proof (cases "prefix lit a")
  case True
  then have "length lit \<le> length a" by (rule prefix_length_le)
  then have d: "drop (length lit) (a @ c # b) = drop (length lit) a @ c # b" by simp
  show ?thesis
    unfolding lit_then_run_def prefix_stop [of url_char, OF c l] d
      takeWhile_stop [of url_char, OF c] dropWhile_stop [of url_char, OF c]
    by simp
next
  case False
  then show ?thesis
    unfolding lit_then_run_def prefix_stop [of url_char, OF c l] by simp
qed

lemma url_literals:
  "list_all url_char ''https://''" "list_all url_char ''http://''" "list_all url_char ''www.''"
  by (simp_all add: url_char_def is_space_def)

lemma match_url_stop:
  assumes c: "\<not> url_char c"
  shows "match_url (a @ c # b) = map_option (\<lambda>(u, r). (u, r @ c # b)) (match_url a)"
  unfolding match_url_def
    lit_then_run_stop [OF c url_literals(1)] lit_then_run_stop [OF c url_literals(2)]
    lit_then_run_stop [OF c url_literals(3)]
  by (simp split: option.splits)

lemma match_url_Nil: "match_url [] = None"
  by (simp add: match_url_def lit_then_run_def)

lemma extract_urls_stop:
  assumes c: "\<not> url_char c"
  shows "extract_urls (a @ c # b) = extract_urls a @ extract_urls b"
proof (induction a rule: extract_urls.induct)
  case 1
  have "match_url ([] @ c # b) = None"
    unfolding match_url_stop [OF c] match_url_Nil by simp
  then show ?case by simp
next
  case (2 x xs)
  show ?case
  proof (cases "match_url (x # xs)")
    case None
    then have "match_url ((x # xs) @ c # b) = None"
      unfolding match_url_stop [OF c] by simp
    then have "extract_urls ((x # xs) @ c # b) = extract_urls (xs @ c # b)" by simp
    with "2.IH"(1) [OF None] None show ?thesis by simp
  next
    case (Some m)
    obtain u rest where m: "m = (u, rest)" by (cases m)
    from Some m have "match_url ((x # xs) @ c # b) = Some (u, rest @ c # b)"
      unfolding match_url_stop [OF c] by simp
    then have "extract_urls ((x # xs) @ c # b) = u # extract_urls (rest @ c # b)" by simp
    with "2.IH"(2) [OF Some m [symmetric]] Some m show ?thesis by simp
  qed
qed

lemma fst_set_if: "fst ` set (if c then [(n, v, e)] else []) = (if c then {n} else {})"
  by simp

lemma triggered_analyze:
  "triggered (analyze lib raw) =
     (if l_suspicious_urls (the (analyze_locals lib raw)) \<noteq> [] then {''suspicious_url''} else {}) \<union>
     (if filter (is_ip_url lib) (extract_urls raw) \<noteq> [] then {''ip_url''} else {}) \<union>
     (if filter (prefix ''http://'') (extract_urls raw) \<noteq> [] then {''http_not_https''} else {}) \<union>
     (if 3 \<le> length (extract_urls raw) then {''multiple_links''} else {}) \<union>
     (if filter (\<lambda>kw. sublist kw (lower raw)) PHISHING_KEYWORDS \<noteq> [] then {''urgent_language''} else {}) \<union>
     (if find_attachments lib raw \<noteq> [] then {''suspicious_attachment''} else {}) \<union>
     (if l_mismatch (the (analyze_locals lib raw)) then {''sender_mismatch''} else {}) \<union>
     (if l_bad_tld_count (the (analyze_locals lib raw)) \<noteq> 0 then {''bad_tld''} else {})"
  unfolding triggered_def signals_of_analyze
  unfolding analyze_locals_run option.sel locals.select_convs set_append image_Un fst_set_if
  by (simp only: Un_assoc)

lemma triggered_names:
  "''ip_url'' \<in> triggered (analyze lib raw) \<longleftrightarrow> (\<exists>u\<in>set (extract_urls raw). is_ip_url lib u)"
  "''http_not_https'' \<in> triggered (analyze lib raw) \<longleftrightarrow>
     (\<exists>u\<in>set (extract_urls raw). prefix ''http://'' u)"
  "''multiple_links'' \<in> triggered (analyze lib raw) \<longleftrightarrow> 3 \<le> length (extract_urls raw)"
  "''urgent_language'' \<in> triggered (analyze lib raw) \<longleftrightarrow>
     (\<exists>kw\<in>set PHISHING_KEYWORDS. sublist kw (lower raw))"
  "''suspicious_attachment'' \<in> triggered (analyze lib raw) \<longleftrightarrow> find_attachments lib raw \<noteq> []"
  "''sender_mismatch'' \<in> triggered (analyze lib raw) \<longleftrightarrow> l_mismatch (the (analyze_locals lib raw))"
  unfolding triggered_analyze by (simp_all add: filter_empty_conv)

lemma space_not_url_char: "\<not> url_char (CHR '' '')" "\<not> url_char (CHR 0x0A)"
  by (simp_all add: url_char_def is_space_def)

text \<open>
  C8. For every text, the \<open>urls\<close> of the result are the links \<open>extract_urls\<close> finds
  in it; each is a contiguous piece of the text; they lie in the text one behind the
  other in the order of the list, so the list is in order of appearance; and a text made
  of two parts around a blank yields the links of the first part followed by the links
  of the second, so a link that occurs twice is listed twice.
\<close>

theorem urls_are_substrings_in_order:
  "strs_field ''urls'' (analyze lib raw) = Some (extract_urls raw) \<and>
   (\<forall>u\<in>set (extract_urls raw). sublist u raw) \<and>
   (\<exists>gaps tail. length gaps = length (extract_urls raw) \<and>
      raw = concat (map (\<lambda>(g, u). g @ u) (zip gaps (extract_urls raw))) @ tail) \<and>
   (\<forall>a b. raw = a @ CHR '' '' # b \<longrightarrow> extract_urls raw = extract_urls a @ extract_urls b)"
  using extract_urls_sublist [of _ raw] extract_urls_weave [of raw]
    extract_urls_stop [OF space_not_url_char(1)]
  by (simp add: strs_field_analyze)

text \<open>On \<open>www.a.com www.a.com\<close> the list holds the link twice.\<close>

lemma dup_links_urls: "extract_urls ''www.a.com'' = [''www.a.com'']"
  by code_simp

theorem urls_are_substrings_in_order_witness:
  "strs_field ''urls'' (analyze plain_lib dup_links) = Some [''www.a.com'', ''www.a.com''] \<and>
   ''www.a.com'' \<in> set (extract_urls dup_links) \<and> sublist ''www.a.com'' dup_links"
proof -
  note t = urls_are_substrings_in_order [of plain_lib dup_links]
  have d: "dup_links = ''www.a.com'' @ CHR '' '' # ''www.a.com''"
    by (simp add: dup_links_def)
  with t have "extract_urls dup_links = extract_urls ''www.a.com'' @ extract_urls ''www.a.com''"
    by blast
  then have e: "extract_urls dup_links = [''www.a.com'', ''www.a.com'']"
    unfolding dup_links_urls by simp
  have m: "''www.a.com'' \<in> set (extract_urls dup_links)" unfolding e by simp
  with t have "sublist ''www.a.com'' dup_links" by blast
  with t m show ?thesis unfolding e by blast
qed

section \<open>No exception leaves \<open>analyze\<close>\<close>

text \<open>
  C7. For every text and whatever the libraries do, raising included, \<open>analyze\<close>
  returns a dict with all its keys. If reading a header raises, sender and reply-to are
  empty; if walking the parts raises, at the walk or at a part, there are no attachments
  and \<open>suspicious_attachment\<close> does not fire; if parsing a link raises, the link is no
  IP link and has no domain.
\<close>

theorem analyze_never_raises:
  "(\<exists>r. analyze lib raw = Some r \<and> dom r = result_keys) \<and>
   ((email_header lib raw ''From'' = None \<or> email_header lib raw ''Reply-To'' = None) \<longrightarrow>
      str_field ''sender'' (analyze lib raw) = Some [] \<and>
      str_field ''reply_to'' (analyze lib raw) = Some []) \<and>
   ((email_walk lib raw = None \<or> (\<exists>ps. email_walk lib raw = Some ps \<and> walk_parts ps = None)) \<longrightarrow>
      find_attachments lib raw = [] \<and>
      ''suspicious_attachment'' \<notin> triggered (analyze lib raw)) \<and>
   (\<forall>u. url_hostname lib (with_scheme u) = None \<longrightarrow>
      \<not> is_ip_url lib u \<and> domain_from_url lib u = [])"
proof -
  have h: "(email_header lib raw ''From'' = None \<or> email_header lib raw ''Reply-To'' = None) \<longrightarrow>
      extract_sender_from_headers lib raw = ([], [])"
    by (auto simp: extract_sender_from_headers_def try_except_def split: option.splits)
  have a: "(email_walk lib raw = None \<or> (\<exists>ps. email_walk lib raw = Some ps \<and> walk_parts ps = None)) \<longrightarrow>
      find_attachments lib raw = []"
    by (auto simp: find_attachments_def try_except_def)
  have u: "\<forall>u. url_hostname lib (with_scheme u) = None \<longrightarrow>
      \<not> is_ip_url lib u \<and> domain_from_url lib u = []"
    by (simp add: is_ip_url_def domain_from_url_def try_except_def)
  from analyze_keys [of lib raw] h a u show ?thesis
    unfolding triggered_names str_field_analyze by auto
qed

text \<open>With libraries of which every call raises, the example still has a result.\<close>

theorem analyze_never_raises_witness:
  "(\<exists>r. analyze raising_lib example_mail = Some r \<and> dom r = result_keys) \<and>
   email_header raising_lib example_mail ''From'' = None \<and>
   str_field ''sender'' (analyze raising_lib example_mail) = Some [] \<and>
   str_field ''reply_to'' (analyze raising_lib example_mail) = Some [] \<and>
   email_walk raising_lib example_mail = None \<and>
   ''suspicious_attachment'' \<notin> triggered (analyze raising_lib example_mail) \<and>
   url_hostname raising_lib (with_scheme ''http://192.168.1.5/login'') = None \<and>
   \<not> is_ip_url raising_lib ''http://192.168.1.5/login''"
proof -
  have r: "email_header raising_lib example_mail ''From'' = None"
    "email_walk raising_lib example_mail = None"
    "url_hostname raising_lib (with_scheme ''http://192.168.1.5/login'') = None"
    by (simp_all add: raising_lib_def)
  with analyze_never_raises [of raising_lib example_mail] show ?thesis by blast
qed

section \<open>The sender rule\<close>


lemma if_Some_eq: "(if A then Some x else None) = Some m \<Longrightarrow> A \<and> m = x"
  by (simp split: if_splits)






lemma py_split_no_sep: "sep \<notin> set d \<Longrightarrow> py_split sep d = [d]"
  by (induction d) (auto split: list.splits)

lemma py_split_first:
  "sep \<notin> set a \<Longrightarrow> py_split sep (a @ sep # rest) = a # py_split sep rest"
  by (induction a) (auto split: list.splits)




lemma mismatch_the:
  "l_mismatch (the (analyze_locals lib raw)) \<longleftrightarrow>
     sender_domain_of (fst (extract_sender_from_headers lib raw)) \<noteq> [] \<and>
     link_domains_of lib (extract_urls raw) \<noteq> {} \<and>
     (\<forall>ld\<in>link_domains_of lib (extract_urls raw).
        \<not> suffix (sender_domain_of (fst (extract_sender_from_headers lib raw))) ld \<and>
        \<not> suffix ld (sender_domain_of (fst (extract_sender_from_headers lib raw))) \<and>
        \<not> suffix (last (py_split CHR ''.''
               (sender_domain_of (fst (extract_sender_from_headers lib raw))))) ld)"
  unfolding analyze_locals_run option.sel locals.select_convs by blast


lemma link_domains_of_eq:
  "link_domains_of lib urls = {d. d \<noteq> [] \<and> (\<exists>u\<in>set urls. d = domain_from_url lib u)}"
  by (auto simp: link_domains_of_def)





section \<open>The IP rule\<close>

text \<open>
  The search with \<open>IP_REGEX\<close> finds a match exactly when the host contains a dotted
  quad between word boundaries (lemma \<open>ip_regex_search_iff\<close>).
\<close>

lemma digit_is_word: "is_digit c \<Longrightarrow> is_word c"
  unfolding is_digit_def is_word_def Let_def by blast

lemma dot_facts: "\<not> is_digit CHR ''.''" "\<not> is_word CHR ''.''"
  by code_simp+

lemma digits_1_3_Some:
  "digits_1_3 s = Some (ds, r) \<longleftrightarrow>
     s = ds @ r \<and> digit_group ds \<and> (r = [] \<or> \<not> is_digit (hd r))"
proof
  assume a: "digits_1_3 s = Some (ds, r)"
  let ?ds = "takeWhile is_digit s"
  from a have "(if 1 \<le> length ?ds \<and> length ?ds \<le> 3 then Some (?ds, dropWhile is_digit s) else None)
      = Some (ds, r)"
    unfolding digits_1_3_def Let_def .
  from if_Some_eq [OF this] have l: "1 \<le> length ?ds \<and> length ?ds \<le> 3"
    and e: "(ds, r) = (?ds, dropWhile is_digit s)" by blast+
  from e have d: "ds = ?ds" and r: "r = dropWhile is_digit s" by simp_all
  have "s = ds @ r" unfolding d r by simp
  moreover have "digit_group ds"
    unfolding digit_group_def d list_all_iff using l by (blast dest: set_takeWhileD)
  moreover have "r = [] \<or> \<not> is_digit (hd r)"
    unfolding r using hd_dropWhile [of is_digit s] by blast
  ultimately show "s = ds @ r \<and> digit_group ds \<and> (r = [] \<or> \<not> is_digit (hd r))" by blast
next
  assume a: "s = ds @ r \<and> digit_group ds \<and> (r = [] \<or> \<not> is_digit (hd r))"
  then have s: "s = ds @ r" and g: "digit_group ds" and n: "r = [] \<or> \<not> is_digit (hd r)"
    by blast+
  from g have all: "\<And>x. x \<in> set ds \<Longrightarrow> is_digit x"
    by (simp add: digit_group_def list_all_iff)
  from n have tr: "takeWhile is_digit r = []" by (cases r) auto
  from n have dr: "dropWhile is_digit r = r" by (cases r) auto
  have t: "takeWhile is_digit s = ds"
    unfolding s using all tr by (simp add: takeWhile_append2)
  have d: "dropWhile is_digit s = r"
    unfolding s using all dr by (simp add: dropWhile_append2)
  show "digits_1_3 s = Some (ds, r)"
    unfolding digits_1_3_def Let_def t d using g by (simp add: digit_group_def)
qed

lemma digits_dot_Some:
  "digits_dot s = Some r \<longleftrightarrow> (\<exists>ds. digit_group ds \<and> s = ds @ CHR ''.'' # r)"
proof
  assume a: "digits_dot s = Some r"
  then obtain ds r0 where d: "digits_1_3 s = Some (ds, r0)"
    unfolding digits_dot_def by (cases "digits_1_3 s") auto
  with a have "r0 = CHR ''.'' # r"
    unfolding digits_dot_def by (cases r0) (auto split: if_splits)
  with d show "\<exists>ds. digit_group ds \<and> s = ds @ CHR ''.'' # r"
    unfolding digits_1_3_Some by blast
next
  assume "\<exists>ds. digit_group ds \<and> s = ds @ CHR ''.'' # r"
  then obtain ds where g: "digit_group ds" and s: "s = ds @ CHR ''.'' # r" by blast
  have "digits_1_3 s = Some (ds, CHR ''.'' # r)"
    unfolding digits_1_3_Some using g s dot_facts(1) by simp
  then show "digits_dot s = Some r" unfolding digits_dot_def by simp
qed

lemma digit_group_ends:
  "digit_group g \<Longrightarrow> g \<noteq> [] \<and> is_digit (hd g) \<and> is_digit (last g)"
  by (cases g) (auto simp: digit_group_def list_all_iff)

lemma is_word_hd_opt: "is_word_opt (hd_opt r) \<longleftrightarrow> r \<noteq> [] \<and> is_word (hd r)"
  by (cases r) (simp_all add: is_word_opt_def hd_opt_def)

lemma boundary_in_front:
  "digit_group g \<Longrightarrow> word_boundary left (hd_opt (g @ r)) \<longleftrightarrow> \<not> is_word_opt left"
  using digit_group_ends [of g] digit_is_word [of "hd g"]
  by (cases g) (auto simp: word_boundary_def is_word_opt_def hd_opt_def)

lemma boundary_behind:
  "digit_group g \<Longrightarrow> word_boundary (Some (last g)) (hd_opt r) \<longleftrightarrow> r = [] \<or> \<not> is_word (hd r)"
  using digit_group_ends [of g] digit_is_word [of "last g"]
  unfolding word_boundary_def is_word_hd_opt by (auto simp: is_word_opt_def)

lemma ip_match_at_iff:
  "ip_match_at left s \<longleftrightarrow>
     \<not> is_word_opt left \<and>
     (\<exists>a b c d post. s = a @ CHR ''.'' # b @ CHR ''.'' # c @ CHR ''.'' # d @ post \<and>
        digit_group a \<and> digit_group b \<and> digit_group c \<and> digit_group d \<and>
        (post = [] \<or> \<not> is_word (hd post)))"
proof
  assume m: "ip_match_at left s"
  then have wb: "word_boundary left (hd_opt s)" unfolding ip_match_at_def by blast
  from m obtain r1 where r1: "digits_dot s = Some r1"
    unfolding ip_match_at_def by (cases "digits_dot s") auto
  from m r1 obtain r2 where r2: "digits_dot r1 = Some r2"
    unfolding ip_match_at_def by (cases "digits_dot r1") auto
  from m r1 r2 obtain r3 where r3: "digits_dot r2 = Some r3"
    unfolding ip_match_at_def by (cases "digits_dot r2") auto
  from m r1 r2 r3 obtain d r4 where r4: "digits_1_3 r3 = Some (d, r4)"
    unfolding ip_match_at_def by (cases "digits_1_3 r3") auto
  from m r1 r2 r3 r4 have we: "word_boundary (Some (last d)) (hd_opt r4)"
    unfolding ip_match_at_def by simp
  from r1 obtain a where a: "digit_group a" "s = a @ CHR ''.'' # r1"
    unfolding digits_dot_Some by blast
  from r2 obtain b where b: "digit_group b" "r1 = b @ CHR ''.'' # r2"
    unfolding digits_dot_Some by blast
  from r3 obtain c where c: "digit_group c" "r2 = c @ CHR ''.'' # r3"
    unfolding digits_dot_Some by blast
  from r4 have d: "digit_group d" "r3 = d @ r4"
    unfolding digits_1_3_Some by blast+
  from wb a have l: "\<not> is_word_opt left"
    using boundary_in_front [OF a(1), of left "CHR ''.'' # r1"] by simp
  from we d have e: "r4 = [] \<or> \<not> is_word (hd r4)"
    using boundary_behind [OF d(1), of r4] by simp
  have "s = a @ CHR ''.'' # b @ CHR ''.'' # c @ CHR ''.'' # d @ r4"
    unfolding a(2) b(2) c(2) d(2) by simp
  with a(1) b(1) c(1) d(1) e l
  show "\<not> is_word_opt left \<and>
     (\<exists>a b c d post. s = a @ CHR ''.'' # b @ CHR ''.'' # c @ CHR ''.'' # d @ post \<and>
        digit_group a \<and> digit_group b \<and> digit_group c \<and> digit_group d \<and>
        (post = [] \<or> \<not> is_word (hd post)))"
    by blast
next
  assume "\<not> is_word_opt left \<and>
     (\<exists>a b c d post. s = a @ CHR ''.'' # b @ CHR ''.'' # c @ CHR ''.'' # d @ post \<and>
        digit_group a \<and> digit_group b \<and> digit_group c \<and> digit_group d \<and>
        (post = [] \<or> \<not> is_word (hd post)))"
  then obtain a b c d post where l: "\<not> is_word_opt left"
    and s: "s = a @ CHR ''.'' # b @ CHR ''.'' # c @ CHR ''.'' # d @ post"
    and g: "digit_group a" "digit_group b" "digit_group c" "digit_group d"
    and e: "post = [] \<or> \<not> is_word (hd post)"
    by blast
  have r1: "digits_dot s = Some (b @ CHR ''.'' # c @ CHR ''.'' # d @ post)"
    unfolding digits_dot_Some s using g(1) by blast
  have r2: "digits_dot (b @ CHR ''.'' # c @ CHR ''.'' # d @ post) = Some (c @ CHR ''.'' # d @ post)"
    unfolding digits_dot_Some using g(2) by blast
  have r3: "digits_dot (c @ CHR ''.'' # d @ post) = Some (d @ post)"
    unfolding digits_dot_Some using g(3) by blast
  from e have "post = [] \<or> \<not> is_digit (hd post)" using digit_is_word by blast
  then have r4: "digits_1_3 (d @ post) = Some (d, post)"
    unfolding digits_1_3_Some using g(4) by blast
  have wb: "word_boundary left (hd_opt s)"
    unfolding s boundary_in_front [OF g(1)] by (rule l)
  have we: "word_boundary (Some (last d)) (hd_opt post)"
    unfolding boundary_behind [OF g(4)] by (rule e)
  show "ip_match_at left s"
    using wb we by (simp add: ip_match_at_def r1 r2 r3 r4)
qed

lemma ip_search_from_iff:
  "ip_search_from left s \<longleftrightarrow>
     (\<exists>pre rest. s = pre @ rest \<and>
        ip_match_at (if pre = [] then left else Some (last pre)) rest)"
proof (induction s arbitrary: left)
  case Nil
  show ?case by simp
next
  case (Cons c cs)
  note IH = Cons.IH
  show ?case
  proof
    assume "ip_search_from left (c # cs)"
    then consider "ip_match_at left (c # cs)" | "ip_search_from (Some c) cs" by auto
    then show "\<exists>pre rest. c # cs = pre @ rest \<and>
        ip_match_at (if pre = [] then left else Some (last pre)) rest"
    proof cases
      case 1
      then have "c # cs = [] @ (c # cs) \<and>
        ip_match_at (if [] = ([]::string) then left else Some (last [])) (c # cs)" by simp
      then show ?thesis by blast
    next
      case 2
      then obtain pre rest where p: "cs = pre @ rest"
        and m: "ip_match_at (if pre = [] then Some c else Some (last pre)) rest"
        unfolding IH by blast
      then have "c # cs = (c # pre) @ rest \<and>
        ip_match_at (if c # pre = [] then left else Some (last (c # pre))) rest"
        by (cases pre) simp_all
      then show ?thesis by blast
    qed
  next
    assume "\<exists>pre rest. c # cs = pre @ rest \<and>
        ip_match_at (if pre = [] then left else Some (last pre)) rest"
    then obtain pre rest where p: "c # cs = pre @ rest"
      and m: "ip_match_at (if pre = [] then left else Some (last pre)) rest"
      by blast
    show "ip_search_from left (c # cs)"
    proof (cases pre)
      case Nil
      with p have "rest = c # cs" by simp
      with m Nil show ?thesis by simp
    next
      case (Cons x xs)
      with p have x: "x = c" and cs: "cs = xs @ rest" by simp_all
      from m Cons x have "ip_match_at (if xs = [] then Some c else Some (last xs)) rest"
        by (cases xs) simp_all
      with cs have "ip_search_from (Some c) cs" unfolding IH by blast
      then show ?thesis by simp
    qed
  qed
qed

lemma py_split_Cons:
  "py_split sep s = g # gs \<Longrightarrow> gs \<noteq> [] \<Longrightarrow> \<exists>s'. s = g @ sep # s' \<and> py_split sep s' = gs"
proof (induction s arbitrary: g)
  case Nil
  then show ?case by simp
next
  case (Cons c cs)
  show ?case
  proof (cases "c = sep")
    case True
    with Cons.prems have "g = []" "py_split sep cs = gs" by simp_all
    with True show ?thesis by simp
  next
    case False
    obtain p ps where ps: "py_split sep cs = p # ps"
      using py_split_nonempty [of sep cs] by (cases "py_split sep cs") auto
    with False Cons.prems have g: "g = c # p" "ps = gs" by simp_all
    from ps g have "py_split sep cs = p # gs" by simp
    from Cons.IH [OF this Cons.prems(2)] obtain s' where "cs = p @ sep # s'" "py_split sep s' = gs"
      by blast
    with g show ?thesis by simp
  qed
qed

lemma py_split_single: "py_split sep s = [g] \<Longrightarrow> s = g"
proof (induction s arbitrary: g)
  case Nil
  then show ?case by simp
next
  case (Cons c cs)
  obtain p ps where ps: "py_split sep cs = p # ps"
    using py_split_nonempty [of sep cs] by (cases "py_split sep cs") auto
  show ?case
  proof (cases "c = sep")
    case True
    with Cons.prems ps show ?thesis by simp
  next
    case False
    with Cons.prems ps have "g = c # p" "ps = []" by simp_all
    with Cons.IH [of p] ps show ?thesis by simp
  qed
qed

lemma digit_group_no_dot: "digit_group g \<Longrightarrow> CHR ''.'' \<notin> set g"
  using dot_facts(1) by (auto simp: digit_group_def list_all_iff)

lemma spec_dotted_quad_iff:
  "spec_dotted_quad q \<longleftrightarrow>
     (\<exists>a b c d. q = a @ CHR ''.'' # b @ CHR ''.'' # c @ CHR ''.'' # d \<and>
        digit_group a \<and> digit_group b \<and> digit_group c \<and> digit_group d)"
proof
  assume "spec_dotted_quad q"
  then have l: "length (py_split CHR ''.'' q) = 4"
    and g: "list_all digit_group (py_split CHR ''.'' q)"
    unfolding spec_dotted_quad_def Let_def by blast+
  from l obtain a b c d where sp: "py_split CHR ''.'' q = [a, b, c, d]"
    by (auto simp: length_Suc_conv numeral_eq_Suc)
  from py_split_Cons [OF sp] obtain q1 where q1: "q = a @ CHR ''.'' # q1"
    "py_split CHR ''.'' q1 = [b, c, d]" by blast
  from py_split_Cons [OF q1(2)] obtain q2 where q2: "q1 = b @ CHR ''.'' # q2"
    "py_split CHR ''.'' q2 = [c, d]" by blast
  from py_split_Cons [OF q2(2)] obtain q3 where q3: "q2 = c @ CHR ''.'' # q3"
    "py_split CHR ''.'' q3 = [d]" by blast
  from py_split_single [OF q3(2)] have "q3 = d" .
  with q1 q2 q3 have "q = a @ CHR ''.'' # b @ CHR ''.'' # c @ CHR ''.'' # d" by simp
  moreover from g sp have "digit_group a \<and> digit_group b \<and> digit_group c \<and> digit_group d"
    by simp
  ultimately show "\<exists>a b c d. q = a @ CHR ''.'' # b @ CHR ''.'' # c @ CHR ''.'' # d \<and>
        digit_group a \<and> digit_group b \<and> digit_group c \<and> digit_group d" by blast
next
  assume "\<exists>a b c d. q = a @ CHR ''.'' # b @ CHR ''.'' # c @ CHR ''.'' # d \<and>
        digit_group a \<and> digit_group b \<and> digit_group c \<and> digit_group d"
  then obtain a b c d where q: "q = a @ CHR ''.'' # b @ CHR ''.'' # c @ CHR ''.'' # d"
    and g: "digit_group a" "digit_group b" "digit_group c" "digit_group d" by blast
  have "py_split CHR ''.'' q = [a, b, c, d]"
    unfolding q
    by (simp add: py_split_first py_split_no_sep g digit_group_no_dot)
  with g show "spec_dotted_quad q" unfolding spec_dotted_quad_def Let_def by simp
qed

lemma ip_regex_search_iff:
  "ip_regex_search host \<longleftrightarrow>
     (\<exists>pre q post. host = pre @ q @ post \<and> spec_dotted_quad q \<and>
        (pre = [] \<or> \<not> is_word (last pre)) \<and> (post = [] \<or> \<not> is_word (hd post)))"
proof
  assume "ip_regex_search host"
  then obtain pre rest where h: "host = pre @ rest"
    and m: "ip_match_at (if pre = [] then None else Some (last pre)) rest"
    unfolding ip_regex_search_def ip_search_from_iff by blast
  from m obtain a b c d post where
    l: "\<not> is_word_opt (if pre = [] then None else Some (last pre))"
    and r: "rest = a @ CHR ''.'' # b @ CHR ''.'' # c @ CHR ''.'' # d @ post"
    and g: "digit_group a \<and> digit_group b \<and> digit_group c \<and> digit_group d"
    and e: "post = [] \<or> \<not> is_word (hd post)"
    unfolding ip_match_at_iff by blast
  let ?q = "a @ CHR ''.'' # b @ CHR ''.'' # c @ CHR ''.'' # d"
  have "spec_dotted_quad ?q" unfolding spec_dotted_quad_iff using g by blast
  moreover have "host = pre @ ?q @ post" unfolding h r by simp
  moreover from l have "pre = [] \<or> \<not> is_word (last pre)"
    by (cases "pre = []") (simp_all add: is_word_opt_def)
  ultimately show "\<exists>pre q post. host = pre @ q @ post \<and> spec_dotted_quad q \<and>
        (pre = [] \<or> \<not> is_word (last pre)) \<and> (post = [] \<or> \<not> is_word (hd post))"
    using e by blast
next
  assume "\<exists>pre q post. host = pre @ q @ post \<and> spec_dotted_quad q \<and>
        (pre = [] \<or> \<not> is_word (last pre)) \<and> (post = [] \<or> \<not> is_word (hd post))"
  then obtain pre q post where h: "host = pre @ q @ post" and sq: "spec_dotted_quad q"
    and l: "pre = [] \<or> \<not> is_word (last pre)" and e: "post = [] \<or> \<not> is_word (hd post)"
    by blast
  from sq obtain a b c d where q: "q = a @ CHR ''.'' # b @ CHR ''.'' # c @ CHR ''.'' # d"
    and g: "digit_group a" "digit_group b" "digit_group c" "digit_group d"
    unfolding spec_dotted_quad_iff by blast
  from l have l': "\<not> is_word_opt (if pre = [] then None else Some (last pre))"
    by (cases "pre = []") (simp_all add: is_word_opt_def)
  have "q @ post = a @ CHR ''.'' # b @ CHR ''.'' # c @ CHR ''.'' # d @ post"
    unfolding q by simp
  with l' g e have "ip_match_at (if pre = [] then None else Some (last pre)) (q @ post)"
    unfolding ip_match_at_iff by blast
  with h show "ip_regex_search host"
    unfolding ip_regex_search_def ip_search_from_iff by blast
qed

lemma is_ip_url_eq:
  "is_ip_url lib u =
     (case url_hostname lib (with_scheme u) of
        None \<Rightarrow> False | Some h \<Rightarrow> ip_regex_search (or_empty h))"
  by (simp add: is_ip_url_def try_except_def split: option.splits)

lemma no_quad_in_empty: "\<not> ip_regex_search []"
  by code_simp

text \<open>
  C4, as stated, fails: the pattern is searched in the host, not matched against the
  whole of it. The host \<open>1.2.3.4.evil.com\<close> is no dotted quad, and \<open>is_ip_url\<close>
  answers true for \<open>http://1.2.3.4.evil.com/login\<close>.
\<close>

theorem is_ip_url_whole_host_counterexample:
  "is_ip_url plain_lib ip_like_url \<and>
   url_hostname plain_lib (with_scheme ip_like_url) = Some (Some ''1.2.3.4.evil.com'') \<and>
   \<not> spec_dotted_quad ''1.2.3.4.evil.com''"
  by code_simp

text \<open>
  C4, amended. For every link, \<open>is_ip_url\<close> is true exactly when the host that the
  URL parser returns for the link (with \<open>http://\<close> put in front unless the link
  starts with \<open>http\<close>) contains a dotted quad, four groups of one to three digits
  separated by dots with no bound on the numbers, that has no word character directly
  in front of it or behind it. A host that is a dotted quad as a whole is the case of
  nothing in front and nothing behind. Without a host, or when the parser raises, the
  answer is false.
\<close>

theorem is_ip_url_iff:
  "(is_ip_url lib u \<longleftrightarrow>
      (\<exists>host pre q post. url_hostname lib (with_scheme u) = Some (Some host) \<and>
         host = pre @ q @ post \<and> spec_dotted_quad q \<and>
         (pre = [] \<or> \<not> is_word (last pre)) \<and> (post = [] \<or> \<not> is_word (hd post)))) \<and>
   (\<forall>host. url_hostname lib (with_scheme u) = Some (Some host) \<and> spec_dotted_quad host \<longrightarrow>
      is_ip_url lib u) \<and>
   with_scheme u = (if prefix ''http'' u then u else ''http://'' @ u)"
proof -
  have a: "is_ip_url lib u \<longleftrightarrow>
      (\<exists>host pre q post. url_hostname lib (with_scheme u) = Some (Some host) \<and>
         host = pre @ q @ post \<and> spec_dotted_quad q \<and>
         (pre = [] \<or> \<not> is_word (last pre)) \<and> (post = [] \<or> \<not> is_word (hd post)))"
  proof (cases "url_hostname lib (with_scheme u)")
    case None
    then show ?thesis unfolding is_ip_url_eq by simp
  next
    case (Some h)
    show ?thesis
    proof (cases h)
      case None
      with Some show ?thesis unfolding is_ip_url_eq
        by (simp add: or_empty_def no_quad_in_empty)
    next
      case (Some host)
      with \<open>url_hostname lib (with_scheme u) = Some h\<close>
      have "is_ip_url lib u \<longleftrightarrow> ip_regex_search host"
        unfolding is_ip_url_eq by (simp add: or_empty_def)
      with Some \<open>url_hostname lib (with_scheme u) = Some h\<close> show ?thesis
        unfolding ip_regex_search_iff by simp
    qed
  qed
  have b: "\<forall>host. url_hostname lib (with_scheme u) = Some (Some host) \<and> spec_dotted_quad host \<longrightarrow>
      is_ip_url lib u"
  proof (intro allI impI)
    fix host
    assume h: "url_hostname lib (with_scheme u) = Some (Some host) \<and> spec_dotted_quad host"
    then have "host = [] @ host @ [] \<and> spec_dotted_quad host \<and>
         (([]::string) = [] \<or> \<not> is_word (last [])) \<and> (([]::string) = [] \<or> \<not> is_word (hd []))"
      by simp
    with h show "is_ip_url lib u" unfolding a by blast
  qed
  from a b show ?thesis by (simp add: with_scheme_def)
qed

text \<open>
  The host \<open>999.1.1.1\<close> counts, its first group above 255 notwithstanding, and so does
  the quad \<open>1.2.3.4\<close> in front of \<open>.evil.com\<close>.
\<close>

lemma ip_url_facts:
  "url_hostname plain_lib (with_scheme big_quad_url) = Some (Some ''999.1.1.1'')"
  "spec_dotted_quad ''999.1.1.1''"
  "url_hostname plain_lib (with_scheme ip_like_url) = Some (Some ''1.2.3.4.evil.com'')"
  "spec_dotted_quad ''1.2.3.4''"
  "\<not> is_word (hd ''.evil.com'')"
  by code_simp+

theorem is_ip_url_iff_witness:
  "url_hostname plain_lib (with_scheme big_quad_url) = Some (Some ''999.1.1.1'') \<and>
   spec_dotted_quad ''999.1.1.1'' \<and> is_ip_url plain_lib big_quad_url \<and>
   url_hostname plain_lib (with_scheme ip_like_url) = Some (Some ([] @ ''1.2.3.4'' @ ''.evil.com'')) \<and>
   spec_dotted_quad ''1.2.3.4'' \<and> \<not> is_word (hd ''.evil.com'') \<and>
   is_ip_url plain_lib ip_like_url"
proof -
  from is_ip_url_iff [of plain_lib big_quad_url] ip_url_facts(1,2)
  have b: "is_ip_url plain_lib big_quad_url" by blast
  have "url_hostname plain_lib (with_scheme ip_like_url) = Some (Some ''1.2.3.4.evil.com'') \<and>
      ''1.2.3.4.evil.com'' = [] @ ''1.2.3.4'' @ ''.evil.com'' \<and> spec_dotted_quad ''1.2.3.4'' \<and>
      (([]::string) = [] \<or> \<not> is_word (last [])) \<and>
      (''.evil.com'' = [] \<or> \<not> is_word (hd ''.evil.com''))"
    using ip_url_facts(3,4,5) by simp
  then have "\<exists>host pre q post.
      url_hostname plain_lib (with_scheme ip_like_url) = Some (Some host) \<and>
      host = pre @ q @ post \<and> spec_dotted_quad q \<and>
      (pre = [] \<or> \<not> is_word (last pre)) \<and> (post = [] \<or> \<not> is_word (hd post))"
    by (intro exI [of _ "''1.2.3.4.evil.com''"] exI [of _ "[]"] exI [of _ "''1.2.3.4''"]
          exI [of _ "''.evil.com''"])
  with is_ip_url_iff [of plain_lib ip_like_url]
  have i: "is_ip_url plain_lib ip_like_url" by (elim conjE) (rule iffD2)
  from b i ip_url_facts show ?thesis by simp
qed

section \<open>Headers are scanned like the body\<close>

lemma scan_urls_preds:
  "scan_urls lib us ([], 0) =
     (filter (\<lambda>u. suspicious_domain (domain_from_url lib u)) us,
      int (length (filter (\<lambda>u. long_label_domain (domain_from_url lib u)) us)))"
  unfolding scan_urls_eq suspicious_domain_def long_label_domain_def by simp

lemma scanned_the:
  "l_suspicious_urls (the (analyze_locals lib raw)) = fst (scan_urls lib (extract_urls raw) ([], 0))"
  "l_bad_tld_count (the (analyze_locals lib raw)) = snd (scan_urls lib (extract_urls raw) ([], 0))"
  unfolding analyze_locals_run option.sel locals.select_convs by (rule refl)+

lemma triggered_scan:
  "''suspicious_url'' \<in> triggered (analyze lib raw) \<longleftrightarrow>
     fst (scan_urls lib (extract_urls raw) ([], 0)) \<noteq> []"
  "''bad_tld'' \<in> triggered (analyze lib raw) \<longleftrightarrow>
     snd (scan_urls lib (extract_urls raw) ([], 0)) \<noteq> 0"
  unfolding triggered_analyze scanned_the by simp_all

lemma bad_tld_weight:
  "s \<in> set (l_breakdown (the (analyze_locals lib raw))) \<Longrightarrow> fst s = ''bad_tld'' \<Longrightarrow>
   fst (snd s) = min 12 (snd (scan_urls lib (extract_urls raw) ([], 0)) * 4)"
  unfolding analyze_locals_run option.sel locals.select_convs set_append Un_iff
  by (elim disjE) (simp_all split: if_splits)

lemma sublist_stop:
  assumes "c \<notin> set kw"
  shows "sublist kw (a @ c # b) \<longleftrightarrow> sublist kw a \<or> sublist kw b"
proof
  assume "sublist kw (a @ c # b)"
  then consider "sublist kw a" | "sublist kw (c # b)"
    | xs1 xs2 where "kw = xs1 @ xs2" "suffix xs1 a" "prefix xs2 (c # b)"
    unfolding sublist_append by blast
  then show "sublist kw a \<or> sublist kw b"
  proof cases
    case 1
    then show ?thesis by simp
  next
    case 2
    then have "prefix kw (c # b) \<or> sublist kw b" by (simp add: sublist_Cons_right)
    moreover have "prefix kw (c # b) \<Longrightarrow> kw = []"
      using assms by (cases kw) (auto simp: prefix_Cons)
    ultimately show ?thesis by auto
  next
    case 3
    from 3(3) assms 3(1) have "xs2 = []" by (cases xs2) (auto simp: prefix_Cons)
    with 3 have "suffix kw a" by simp
    then have "sublist kw a" by (rule suffix_imp_sublist)
    then show ?thesis by simp
  qed
next
  assume "sublist kw a \<or> sublist kw b"
  then show "sublist kw (a @ c # b)"
  proof
    assume "sublist kw a"
    then obtain ps ss where "a = ps @ kw @ ss" unfolding sublist_def by blast
    then have "a @ c # b = ps @ kw @ (ss @ c # b)" by simp
    then show ?thesis unfolding sublist_def by blast
  next
    assume "sublist kw b"
    then obtain ps ss where "b = ps @ kw @ ss" unfolding sublist_def by blast
    then have "a @ c # b = (a @ c # ps) @ kw @ ss" by simp
    then show ?thesis unfolding sublist_def by blast
  qed
qed

lemma keywords_one_line: "\<forall>kw\<in>set PHISHING_KEYWORDS. CHR 0x0A \<notin> set kw"
  by code_simp

lemma lower_newline: "lower (a @ CHR 0x0A # b) = lower a @ CHR 0x0A # lower b"
proof -
  have "lower_char (CHR 0x0A) = CHR 0x0A" by code_simp
  then show ?thesis by (simp add: lower_def)
qed

lemma link_domains_of_append:
  "link_domains_of lib (us @ vs) = link_domains_of lib us \<union> link_domains_of lib vs"
  unfolding link_domains_of_eq by auto


text \<open>
  C10. \<open>analyze\<close> takes the whole raw text as the body. For a text made of a first
  part (the header lines, say), a newline and the rest, every rule that looks at links
  or keywords treats the two parts alike:
  \<^item> the \<open>urls\<close> are the links of the first part followed by those of the rest, and
    the loop over the links (\<open>scan_urls\<close>) collects the suspicious ones and counts the
    long-label ones of both parts;
  \<^item> \<open>suspicious_url\<close>, \<open>bad_tld\<close>, \<open>ip_url\<close> and \<open>http_not_https\<close> fire exactly
    when a link of either part meets the rule's test, \<open>multiple_links\<close> exactly when
    the two parts hold three links together, and the weight of \<open>bad_tld\<close> counts the
    long-label links of both parts;
  \<^item> \<open>urgent_language\<close> fires exactly when a keyword lies in the lower-cased first part
    or in the lower-cased rest, whatever the libraries make of the message;
  \<^item> the link domains of \<open>sender_mismatch\<close> are those of the links of both parts;
  \<^item> so a keyword or a link that stands in the first part alone triggers its rule.
\<close>

theorem whole_text_is_scanned:
  fixes lib lib' :: pylib and hdr body :: string
  defines "raw \<equiv> hdr @ CHR 0x0A # body"
  defines "hu \<equiv> extract_urls hdr" and "bu \<equiv> extract_urls body"
  defines "sd \<equiv> sender_domain_of (fst (extract_sender_from_headers lib raw))"
    and "lds \<equiv> link_domains_of lib hu \<union> link_domains_of lib bu"
  shows
  "strs_field ''urls'' (analyze lib raw) = Some (hu @ bu) \<and>
   scan_urls lib (extract_urls raw) ([], 0) =
     (filter (\<lambda>u. suspicious_domain (domain_from_url lib u)) hu @
      filter (\<lambda>u. suspicious_domain (domain_from_url lib u)) bu,
      int (length (filter (\<lambda>u. long_label_domain (domain_from_url lib u)) hu)) +
      int (length (filter (\<lambda>u. long_label_domain (domain_from_url lib u)) bu))) \<and>
   (''suspicious_url'' \<in> triggered (analyze lib raw) \<longleftrightarrow>
      fst (scan_urls lib (extract_urls raw) ([], 0)) \<noteq> []) \<and>
   (''suspicious_url'' \<in> triggered (analyze lib raw) \<longleftrightarrow>
      (\<exists>u\<in>set hu \<union> set bu. suspicious_domain (domain_from_url lib u))) \<and>
   (''bad_tld'' \<in> triggered (analyze lib raw) \<longleftrightarrow>
      snd (scan_urls lib (extract_urls raw) ([], 0)) \<noteq> 0) \<and>
   (''bad_tld'' \<in> triggered (analyze lib raw) \<longleftrightarrow>
      (\<exists>u\<in>set hu \<union> set bu. long_label_domain (domain_from_url lib u))) \<and>
   (\<forall>s\<in>set (signals_of (analyze lib raw)). fst s = ''bad_tld'' \<longrightarrow>
      fst (snd s) =
        min 12 (4 * (int (length (filter (\<lambda>u. long_label_domain (domain_from_url lib u)) hu)) +
                     int (length (filter (\<lambda>u. long_label_domain (domain_from_url lib u)) bu))))) \<and>
   (''ip_url'' \<in> triggered (analyze lib raw) \<longleftrightarrow> (\<exists>u\<in>set hu \<union> set bu. is_ip_url lib u)) \<and>
   (''http_not_https'' \<in> triggered (analyze lib raw) \<longleftrightarrow>
      (\<exists>u\<in>set hu \<union> set bu. prefix ''http://'' u)) \<and>
   (''multiple_links'' \<in> triggered (analyze lib raw) \<longleftrightarrow> 3 \<le> length hu + length bu) \<and>
   (''urgent_language'' \<in> triggered (analyze lib raw) \<longleftrightarrow>
      (\<exists>kw\<in>set PHISHING_KEYWORDS. sublist kw (lower hdr) \<or> sublist kw (lower body))) \<and>
   (''sender_mismatch'' \<in> triggered (analyze lib raw) \<longleftrightarrow>
      sd \<noteq> [] \<and> lds \<noteq> {} \<and>
      (\<forall>ld\<in>lds. \<not> suffix sd ld \<and> \<not> suffix ld sd \<and>
                  \<not> suffix (last (py_split CHR ''.'' sd)) ld)) \<and>
   link_domains_of lib (extract_urls raw) = lds \<and>
   ((\<exists>kw\<in>set PHISHING_KEYWORDS. sublist kw (lower hdr)) \<longrightarrow>
      ''urgent_language'' \<in> triggered (analyze lib raw)) \<and>
   ((\<exists>u\<in>set hu. prefix ''http://'' u) \<longrightarrow> ''http_not_https'' \<in> triggered (analyze lib raw)) \<and>
   ((\<exists>u\<in>set hu. is_ip_url lib u) \<longrightarrow> ''ip_url'' \<in> triggered (analyze lib raw)) \<and>
   (3 \<le> length hu \<longrightarrow> ''multiple_links'' \<in> triggered (analyze lib raw)) \<and>
   ((\<exists>u\<in>set hu. suspicious_domain (domain_from_url lib u)) \<longrightarrow>
      ''suspicious_url'' \<in> triggered (analyze lib raw)) \<and>
   ((\<exists>u\<in>set hu. long_label_domain (domain_from_url lib u)) \<longrightarrow>
      ''bad_tld'' \<in> triggered (analyze lib raw)) \<and>
   (''urgent_language'' \<in> triggered (analyze lib raw) \<longleftrightarrow>
      ''urgent_language'' \<in> triggered (analyze lib' raw))"
proof -
  let ?S = "\<lambda>u. suspicious_domain (domain_from_url lib u)"
  let ?L = "\<lambda>u. long_label_domain (domain_from_url lib u)"
  have u: "extract_urls raw = hu @ bu"
    unfolding raw_def hu_def bu_def by (rule extract_urls_stop [OF space_not_url_char(2)])
  have c1: "strs_field ''urls'' (analyze lib raw) = Some (hu @ bu)"
    unfolding strs_field_analyze u ..
  have sc: "scan_urls lib (extract_urls raw) ([], 0) =
      (filter ?S hu @ filter ?S bu, int (length (filter ?L hu)) + int (length (filter ?L bu)))"
    unfolding u scan_urls_preds by simp
  have s1: "''suspicious_url'' \<in> triggered (analyze lib raw) \<longleftrightarrow>
      fst (scan_urls lib (extract_urls raw) ([], 0)) \<noteq> []"
    by (rule triggered_scan)
  have s2: "''suspicious_url'' \<in> triggered (analyze lib raw) \<longleftrightarrow> (\<exists>u\<in>set hu \<union> set bu. ?S u)"
    unfolding s1 sc by (auto simp: filter_empty_conv)
  have b1: "''bad_tld'' \<in> triggered (analyze lib raw) \<longleftrightarrow>
      snd (scan_urls lib (extract_urls raw) ([], 0)) \<noteq> 0"
    by (rule triggered_scan)
  have nz: "int a + int b \<noteq> 0 \<longleftrightarrow> a \<noteq> 0 \<or> b \<noteq> 0" for a b :: nat
    by arith
  have "snd (scan_urls lib (extract_urls raw) ([], 0)) \<noteq> 0 \<longleftrightarrow>
      filter ?L hu \<noteq> [] \<or> filter ?L bu \<noteq> []"
    unfolding sc snd_conv nz length_0_conv ..
  then have b2: "''bad_tld'' \<in> triggered (analyze lib raw) \<longleftrightarrow> (\<exists>u\<in>set hu \<union> set bu. ?L u)"
    unfolding b1 by (auto simp: filter_empty_conv)
  have b3: "\<forall>s\<in>set (signals_of (analyze lib raw)). fst s = ''bad_tld'' \<longrightarrow>
      fst (snd s) = min 12 (4 * (int (length (filter ?L hu)) + int (length (filter ?L bu))))"
  proof (intro ballI impI)
    fix s assume "s \<in> set (signals_of (analyze lib raw))" "fst s = ''bad_tld''"
    then have "fst (snd s) = min 12 (snd (scan_urls lib (extract_urls raw) ([], 0)) * 4)"
      unfolding signals_of_analyze by (rule bad_tld_weight)
    then show "fst (snd s) = min 12 (4 * (int (length (filter ?L hu)) + int (length (filter ?L bu))))"
      unfolding sc by (simp add: mult.commute)
  qed
  have i: "''ip_url'' \<in> triggered (analyze lib raw) \<longleftrightarrow> (\<exists>u\<in>set hu \<union> set bu. is_ip_url lib u)"
    unfolding triggered_names u by auto
  have h: "''http_not_https'' \<in> triggered (analyze lib raw) \<longleftrightarrow>
      (\<exists>u\<in>set hu \<union> set bu. prefix ''http://'' u)"
    unfolding triggered_names u by auto
  have m: "''multiple_links'' \<in> triggered (analyze lib raw) \<longleftrightarrow> 3 \<le> length hu + length bu"
    unfolding triggered_names u by simp
  have k: "''urgent_language'' \<in> triggered (analyze lib raw) \<longleftrightarrow>
      (\<exists>kw\<in>set PHISHING_KEYWORDS. sublist kw (lower hdr) \<or> sublist kw (lower body))"
    unfolding triggered_names raw_def lower_newline
    using keywords_one_line sublist_stop [of "CHR 0x0A" _ "lower hdr" "lower body"] by blast
  have ld: "link_domains_of lib (extract_urls raw) = lds"
    unfolding u lds_def by (rule link_domains_of_append)
  have mm: "''sender_mismatch'' \<in> triggered (analyze lib raw) \<longleftrightarrow>
      sd \<noteq> [] \<and> lds \<noteq> {} \<and>
      (\<forall>ld\<in>lds. \<not> suffix sd ld \<and> \<not> suffix ld sd \<and>
                  \<not> suffix (last (py_split CHR ''.'' sd)) ld)"
    unfolding triggered_names mismatch_the ld sd_def ..
  have k': "''urgent_language'' \<in> triggered (analyze lib raw) \<longleftrightarrow>
      ''urgent_language'' \<in> triggered (analyze lib' raw)"
    unfolding triggered_names ..
  have imps:
    "(\<exists>kw\<in>set PHISHING_KEYWORDS. sublist kw (lower hdr)) \<longrightarrow>
       ''urgent_language'' \<in> triggered (analyze lib raw)"
    "(\<exists>u\<in>set hu. prefix ''http://'' u) \<longrightarrow> ''http_not_https'' \<in> triggered (analyze lib raw)"
    "(\<exists>u\<in>set hu. is_ip_url lib u) \<longrightarrow> ''ip_url'' \<in> triggered (analyze lib raw)"
    "3 \<le> length hu \<longrightarrow> ''multiple_links'' \<in> triggered (analyze lib raw)"
    "(\<exists>u\<in>set hu. ?S u) \<longrightarrow> ''suspicious_url'' \<in> triggered (analyze lib raw)"
    "(\<exists>u\<in>set hu. ?L u) \<longrightarrow> ''bad_tld'' \<in> triggered (analyze lib raw)"
    unfolding k h i m s2 b2 by auto
  from c1 sc s1 s2 b1 b2 b3 i h m k mm ld imps k' show ?thesis
    by (intro conjI)
qed


text \<open>
  A message whose header lines alone hold a sender, a keyword and three links, one to a
  hyphenated domain with a long label and one to an IP literal: all of
  \<open>urgent_language\<close>, \<open>http_not_https\<close>, \<open>ip_url\<close>, \<open>multiple_links\<close>,
  \<open>suspicious_url\<close>, \<open>bad_tld\<close> (weight 4) and \<open>sender_mismatch\<close> fire.
\<close>

lemma header_block_facts:
  "extract_urls header_block =
     [''http://paypal-secure-verify.com/x'', ''http://1.2.3.4/y'', ''www.x.com'']"
  "extract_urls (CHR 0x0A # ''hello'') = []"
  "sublist ''urgent'' (lower header_block)"
  "suspicious_domain (domain_from_url plain_lib ''http://paypal-secure-verify.com/x'')"
  "long_label_domain (domain_from_url plain_lib ''http://paypal-secure-verify.com/x'')"
  "is_ip_url plain_lib ''http://1.2.3.4/y''"
  "int (length (filter (\<lambda>u. long_label_domain (domain_from_url plain_lib u))
          [''http://paypal-secure-verify.com/x'', ''http://1.2.3.4/y'', ''www.x.com''])) = 1"
  by code_simp+

lemma header_block_sender:
  "sender_domain_of (fst (extract_sender_from_headers plain_lib header_only_mail)) = ''bank.org''"
  "''x.com'' \<in> link_domains_of plain_lib
      [''http://paypal-secure-verify.com/x'', ''http://1.2.3.4/y'', ''www.x.com'']"
  "\<forall>ld\<in>link_domains_of plain_lib
        [''http://paypal-secure-verify.com/x'', ''http://1.2.3.4/y'', ''www.x.com''] \<union>
       link_domains_of plain_lib [].
      \<not> suffix ''bank.org'' ld \<and> \<not> suffix ld ''bank.org'' \<and>
      \<not> suffix (last (py_split CHR ''.'' ''bank.org'')) ld"
  by code_simp+

theorem whole_text_is_scanned_witness:
  "strs_field ''urls'' (analyze plain_lib header_only_mail) =
     Some [''http://paypal-secure-verify.com/x'', ''http://1.2.3.4/y'', ''www.x.com''] \<and>
   extract_urls (CHR 0x0A # ''hello'') = [] \<and>
   (\<exists>kw\<in>set PHISHING_KEYWORDS. sublist kw (lower header_block)) \<and>
   ''urgent_language'' \<in> triggered (analyze plain_lib header_only_mail) \<and>
   (\<exists>u\<in>set (extract_urls header_block). prefix ''http://'' u) \<and>
   ''http_not_https'' \<in> triggered (analyze plain_lib header_only_mail) \<and>
   (\<exists>u\<in>set (extract_urls header_block). is_ip_url plain_lib u) \<and>
   ''ip_url'' \<in> triggered (analyze plain_lib header_only_mail) \<and>
   3 \<le> length (extract_urls header_block) \<and>
   ''multiple_links'' \<in> triggered (analyze plain_lib header_only_mail) \<and>
   (\<exists>u\<in>set (extract_urls header_block). suspicious_domain (domain_from_url plain_lib u)) \<and>
   ''suspicious_url'' \<in> triggered (analyze plain_lib header_only_mail) \<and>
   (\<exists>u\<in>set (extract_urls header_block). long_label_domain (domain_from_url plain_lib u)) \<and>
   ''bad_tld'' \<in> triggered (analyze plain_lib header_only_mail) \<and>
   (\<exists>s\<in>set (signals_of (analyze plain_lib header_only_mail)).
      fst s = ''bad_tld'' \<and> fst (snd s) = 4) \<and>
   ''sender_mismatch'' \<in> triggered (analyze plain_lib header_only_mail)"
proof -
  note t = whole_text_is_scanned [of plain_lib header_block "CHR 0x0A # ''hello''" plain_lib,
      folded header_only_mail_def, unfolded header_block_facts(1,2) header_block_sender(1)]
  have k: "\<exists>kw\<in>set PHISHING_KEYWORDS. sublist kw (lower header_block)"
    using header_block_facts(3) by (auto simp: PHISHING_KEYWORDS_def)
  have h: "\<exists>u\<in>set (extract_urls header_block). prefix ''http://'' u"
    unfolding header_block_facts(1) by simp
  have i: "\<exists>u\<in>set (extract_urls header_block). is_ip_url plain_lib u"
    unfolding header_block_facts(1) using header_block_facts(6) by simp
  have m: "3 \<le> length (extract_urls header_block)"
    unfolding header_block_facts(1) by simp
  have s: "\<exists>u\<in>set (extract_urls header_block). suspicious_domain (domain_from_url plain_lib u)"
    unfolding header_block_facts(1) using header_block_facts(4) by simp
  have b: "\<exists>u\<in>set (extract_urls header_block). long_label_domain (domain_from_url plain_lib u)"
    unfolding header_block_facts(1) using header_block_facts(5) by simp
  note t1 = t [THEN conjunct1, unfolded append_Nil2]
  note r = t [THEN conjunct2, THEN conjunct2, THEN conjunct2, THEN conjunct2, THEN conjunct2,
      THEN conjunct2]
  note w = r [THEN conjunct1]
  note r = r [THEN conjunct2, THEN conjunct2, THEN conjunct2, THEN conjunct2, THEN conjunct2]
  note mm = r [THEN conjunct1]
  note r = r [THEN conjunct2, THEN conjunct2]
  note ku = r [THEN conjunct1] and hu = r [THEN conjunct2, THEN conjunct1]
    and iu = r [THEN conjunct2, THEN conjunct2, THEN conjunct1]
    and mu = r [THEN conjunct2, THEN conjunct2, THEN conjunct2, THEN conjunct1]
    and su = r [THEN conjunct2, THEN conjunct2, THEN conjunct2, THEN conjunct2, THEN conjunct1]
    and bu = r [THEN conjunct2, THEN conjunct2, THEN conjunct2, THEN conjunct2, THEN conjunct2,
      THEN conjunct1]
  from ku k [unfolded header_block_facts(1)]
  have tk: "''urgent_language'' \<in> triggered (analyze plain_lib header_only_mail)" by (rule mp)
  from hu h [unfolded header_block_facts(1)]
  have th: "''http_not_https'' \<in> triggered (analyze plain_lib header_only_mail)" by (rule mp)
  from iu i [unfolded header_block_facts(1)]
  have ti: "''ip_url'' \<in> triggered (analyze plain_lib header_only_mail)" by (rule mp)
  from mu m [unfolded header_block_facts(1)]
  have tm: "''multiple_links'' \<in> triggered (analyze plain_lib header_only_mail)" by (rule mp)
  from su s [unfolded header_block_facts(1)]
  have ts: "''suspicious_url'' \<in> triggered (analyze plain_lib header_only_mail)" by (rule mp)
  from bu b [unfolded header_block_facts(1)]
  have tb: "''bad_tld'' \<in> triggered (analyze plain_lib header_only_mail)" by (rule mp)
  then obtain sg where sg: "sg \<in> set (signals_of (analyze plain_lib header_only_mail))"
    "fst sg = ''bad_tld''"
    unfolding triggered_def by force
  with w have "fst (snd sg) = 4"
    unfolding header_block_facts(7) by simp
  with sg have wb: "\<exists>s\<in>set (signals_of (analyze plain_lib header_only_mail)).
      fst s = ''bad_tld'' \<and> fst (snd s) = 4" by blast
  have ne: "link_domains_of plain_lib
        [''http://paypal-secure-verify.com/x'', ''http://1.2.3.4/y'', ''www.x.com''] \<union>
       link_domains_of plain_lib [] \<noteq> {}"
    using header_block_sender(2) by blast
  have sdne: "''bank.org'' \<noteq> []" by simp
  from mm sdne ne header_block_sender(3)
  have tmm: "''sender_mismatch'' \<in> triggered (analyze plain_lib header_only_mail)"
    by (elim iffD2) (intro conjI)
  from t1 header_block_facts(2) k tk h th i ti m tm s ts b tb wb tmm show ?thesis
    by (intro conjI)
qed

end
